theory Spec2Isabelle
  imports Main "HOL-Library.AList"
begin

section \<open>The extension features management service\<close>

text \<open>
  A shallow embedding of \<^verbatim>\<open>ExtensionFeaturesManagementService\<close>
  (\<^verbatim>\<open>extensionFeaturesManagemetService.ts\<close>). The service keeps, for every pair of an
  extension and a feature, an optional \<^verbatim>\<open>disabled\<close> flag and access counters; it
  stores the flag and the lifetime counter under one storage key and fires two kinds of
  events.

  Conventions of the model:
  \<^item> an \<^verbatim>\<open>ExtensionIdentifier\<close> is its \<^verbatim>\<open>value\<close> string, the only part the service
    reads; a JavaScript \<^verbatim>\<open>number\<close> holding a counter or a timestamp is an \<^typ>\<open>int\<close>
    (the counters stay far below \<open>2^53\<close>, where doubles are exact);
  \<^item> a JavaScript \<^verbatim>\<open>Map\<close> is an association list in insertion order: \<^verbatim>\<open>get\<close> is
    \<^const>\<open>map_of\<close>, \<^verbatim>\<open>set\<close> is \<^const>\<open>AList.update\<close> (an existing key keeps its place,
    a new key goes last), and an assignment to a field of an object held in the map is
    \<^const>\<open>AList.map_entry\<close>;
  \<^item> \<^verbatim>\<open>undefined\<close> is \<^const>\<open>None\<close>;
  \<^item> a \<^verbatim>\<open>throw\<close> is an \<^const>\<open>Inl\<close> result, returned together with the state at the
    moment of the throw;
  \<^item> the feature registry, the storage service, the event emitters, the dialog and the
    clock are collaborators: the registered features and the stored value are fields of
    the state, every \<^verbatim>\<open>store\<close> and every \<^verbatim>\<open>fire\<close> is appended to a trace, the answer of
    the dialog and the reading of the clock are arguments;
  \<^item> \<^verbatim>\<open>getAccess\<close> is asynchronous. It runs until it awaits the dialog and is then
    suspended; whatever else is called runs on the state it left, and the rest of the call
    runs when the dialog is answered. The model has one function for each part. The
    suspended call keeps its reference \<^verbatim>\<open>featureState\<close> to an object of the map, which is
    the same object as long as the map is not replaced; the maps that a reload has
    replaced are kept in the state, since a suspended call may still write to their
    objects;
  \<^item> every other operation is synchronous, and listeners of the events do not call back
    into the service.
\<close>

subsection \<open>Data\<close>

type_synonym extensionId = string
type_synonym featureId = string

text \<open>
  Modelled from the spec: \<^verbatim>\<open>Severity\<close> is declared in \<^verbatim>\<open>vs/base/common/severity\<close>, which
  is not among the sources. A status is a pair of a severity and a message; the severity
  is an enumeration of four levels, and the service only passes it on.
\<close>

datatype Severity = Ignore | Info | Warning | Error

record accessStatus =
  severity :: Severity
  message :: string

record currentAccess =
  count :: int
  lastAccessed :: int
  status :: "accessStatus option"

text \<open>
  Modelled from the spec: \<^verbatim>\<open>IExtensionFeatureAccessData\<close> is declared in
  \<^verbatim>\<open>extensionFeatures.ts\<close>, which is not among the sources. Its fields are the ones the
  service reads and writes: the lifetime total and the optional session data
  \<^verbatim>\<open>{ count, lastAccessed, status? }\<close>.
\<close>

record IExtensionFeatureAccessData =
  totalCount :: int
  current :: "currentAccess option"

record IExtensionFeatureState =
  disabled :: "bool option"
  accessData :: IExtensionFeatureAccessData

text \<open>
  Modelled from the spec: the registry and the descriptor of a feature are declared outside
  the sources. The service asks the registry for a feature by its id and reads the label
  and the description of what it gets, for the dialog only.
\<close>

record IExtensionFeature =
  label :: string
  description :: string

text \<open>
  The stored form \<^verbatim>\<open>{ disabled?: boolean; accessCount: number }\<close> of one pair, and the
  value under the key \<^verbatim>\<open>extension.features.state\<close>: a text that \<^verbatim>\<open>JSON.parse\<close> rejects,
  or the dictionary of dictionaries a well-formed text denotes. \<^verbatim>\<open>JSON.stringify\<close>
  followed by \<^verbatim>\<open>JSON.parse\<close> gives such a dictionary back unchanged (a field that is
  \<^verbatim>\<open>undefined\<close> is left out of the text and read back as \<^verbatim>\<open>undefined\<close>), so the model
  keeps the dictionary and not its text. A dictionary is an association list in the
  order its keys are enumerated.
\<close>

record storedFeature =
  storedDisabled :: "bool option"
  accessCount :: int

type_synonym storedData = "(extensionId \<times> (featureId \<times> storedFeature) list) list"

datatype storedValue = Malformed | Json storedData

datatype error = NoFeature featureId

text \<open>
  What the service does to its collaborators: \<^verbatim>\<open>_onDidChangeEnablement.fire\<close>,
  \<^verbatim>\<open>_onDidChangeAccessData.fire\<close> and \<^verbatim>\<open>storageService.store\<close>. The access data of an
  event is optional because \<^verbatim>\<open>setStatus\<close> passes \<^verbatim>\<open>getAccessData(...)!\<close>, whose
  non-null assertion checks nothing when the program runs.
\<close>

datatype effect =
    DidChangeEnablement extensionId featureId bool
  | DidChangeAccessData extensionId featureId "IExtensionFeatureAccessData option"
  | Store storedValue

type_synonym featuresState = "(extensionId \<times> (featureId \<times> IExtensionFeatureState) list) list"

text \<open>
  The state: \<^verbatim>\<open>this.extensionFeaturesState\<close> is the map in use; \<open>retired\<close> are the maps
  it has replaced, oldest first.
\<close>

record service =
  registry :: "(featureId \<times> IExtensionFeature) list"
  extensionFeaturesState :: featuresState
  retired :: "featuresState list"
  storage :: "storedValue option"
  trace :: "effect list"

subsection \<open>Collaborators\<close>

definition getExtensionFeature :: "featureId \<Rightarrow> service \<Rightarrow> IExtensionFeature option" where
  "getExtensionFeature featureId st = map_of (registry st) featureId"

definition fire :: "effect \<Rightarrow> service \<Rightarrow> service" where
  "fire e st = st\<lparr>trace := trace st @ [e]\<rparr>"

subsection \<open>Loading and saving\<close>

definition loadFeature :: "storedFeature \<Rightarrow> IExtensionFeatureState" where
  "loadFeature extensionFeature =
     \<lparr>disabled = storedDisabled extensionFeature,
      accessData = \<lparr>totalCount = accessCount extensionFeature, current = None\<rparr>\<rparr>"

text \<open>
  \<^verbatim>\<open>loadState\<close>: the stored text, \<^verbatim>\<open>'{}'\<close> when the key is absent; a text that does not
  parse leaves \<^verbatim>\<open>data\<close> empty. The two \<^verbatim>\<open>for ... in\<close> statements visit the keys of a
  dictionary, which are distinct, once each and \<^verbatim>\<open>set\<close> one entry per key.
\<close>

definition loadState :: "storedValue option \<Rightarrow> featuresState" where
  "loadState raw =
     (let data = (case raw of None \<Rightarrow> [] | Some Malformed \<Rightarrow> [] | Some (Json d) \<Rightarrow> d)
      in map (\<lambda>(extensionId, extensionFeatures).
                (extensionId,
                 map (\<lambda>(featureId, extensionFeature). (featureId, loadFeature extensionFeature))
                   extensionFeatures))
           data)"

definition saveFeature :: "IExtensionFeatureState \<Rightarrow> storedFeature" where
  "saveFeature featureState =
     \<lparr>storedDisabled = disabled featureState,
      accessCount = totalCount (accessData featureState)\<rparr>"

text \<open>
  The dictionaries \<^verbatim>\<open>saveState\<close> builds are plain objects filled by assignment
  \<^verbatim>\<open>data[extensionId] = ...\<close>. For the key \<^verbatim>\<open>__proto__\<close> such an assignment sets the
  prototype of the object and adds no property, so \<^verbatim>\<open>JSON.stringify\<close> writes nothing
  for it. (A key that looks like an array index is enumerated before the others; this
  reordering is not modelled, and no statement below depends on the order.)
\<close>

definition ownKey :: "string \<Rightarrow> bool" where
  "ownKey k = (k \<noteq> ''__proto__'')"

definition saveData :: "featuresState \<Rightarrow> storedData" where
  "saveData m =
     map (\<lambda>(extensionId, extensionState).
            (extensionId,
             map (\<lambda>(featureId, featureState). (featureId, saveFeature featureState))
               (filter (\<lambda>(featureId, featureState). ownKey featureId) extensionState)))
       (filter (\<lambda>(extensionId, extensionState). ownKey extensionId) m)"

definition saveState :: "service \<Rightarrow> service" where
  "saveState st =
     (let data = Json (saveData (extensionFeaturesState st))
      in st\<lparr>storage := Some data, trace := trace st @ [Store data]\<rparr>)"

text \<open>The constructor: the registry is handed in, the state is loaded from the storage.\<close>

definition construct :: "(featureId \<times> IExtensionFeature) list \<Rightarrow> storedValue option \<Rightarrow> service" where
  "construct reg raw =
     \<lparr>registry = reg, extensionFeaturesState = loadState raw, retired = [], storage = raw,
      trace = []\<rparr>"

subsection \<open>The state of one pair\<close>

definition getExtensionFeatureState ::
    "extensionId \<Rightarrow> featureId \<Rightarrow> service \<Rightarrow> IExtensionFeatureState option" where
  "getExtensionFeatureState extension featureId st =
     (case map_of (extensionFeaturesState st) extension of
        None \<Rightarrow> None
      | Some extensionState \<Rightarrow> map_of extensionState featureId)"

definition getAndSetIfNotExistsExtensionFeatureState ::
    "extensionId \<Rightarrow> featureId \<Rightarrow> service \<Rightarrow> IExtensionFeatureState \<times> service" where
  "getAndSetIfNotExistsExtensionFeatureState extension featureId st =
     (let (extensionState, st1) =
            (case map_of (extensionFeaturesState st) extension of
               None \<Rightarrow>
                 ([], st\<lparr>extensionFeaturesState :=
                            AList.update extension [] (extensionFeaturesState st)\<rparr>)
             | Some m \<Rightarrow> (m, st))
      in case map_of extensionState featureId of
           None \<Rightarrow>
             (let featureState =
                    \<lparr>disabled = None, accessData = \<lparr>totalCount = 0, current = None\<rparr>\<rparr>
              in (featureState,
                  st1\<lparr>extensionFeaturesState :=
                        AList.map_entry extension (AList.update featureId featureState)
                          (extensionFeaturesState st1)\<rparr>))
         | Some featureState \<Rightarrow> (featureState, st1))"

text \<open>
  An assignment through the reference \<^verbatim>\<open>featureState\<close>: the object sits in the map of
  its extension, so the assignment changes that entry where it stands.
\<close>

definition assignFeatureState ::
    "extensionId \<Rightarrow> featureId \<Rightarrow> (IExtensionFeatureState \<Rightarrow> IExtensionFeatureState) \<Rightarrow>
     service \<Rightarrow> service" where
  "assignFeatureState extension featureId f st =
     st\<lparr>extensionFeaturesState :=
          AList.map_entry extension (AList.map_entry featureId f) (extensionFeaturesState st)\<rparr>"

subsection \<open>The operations\<close>

definition isEnabled :: "extensionId \<Rightarrow> featureId \<Rightarrow> service \<Rightarrow> bool" where
  "isEnabled extension featureId st =
     (case getExtensionFeature featureId st of
        None \<Rightarrow> False
      | Some feature \<Rightarrow>
          \<not> (case getExtensionFeatureState extension featureId st of
                None \<Rightarrow> False
              | Some featureState \<Rightarrow>
                  (case disabled featureState of None \<Rightarrow> False | Some d \<Rightarrow> d)))"

definition setEnablement ::
    "extensionId \<Rightarrow> featureId \<Rightarrow> bool \<Rightarrow> service \<Rightarrow> (error + unit) \<times> service" where
  "setEnablement extension featureId enabled st =
     (case getExtensionFeature featureId st of
        None \<Rightarrow> (Inl (NoFeature featureId), st)
      | Some feature \<Rightarrow>
          (let (featureState, st1) =
                 getAndSetIfNotExistsExtensionFeatureState extension featureId st
           in if disabled featureState \<noteq> Some (\<not> enabled) then
                (let st2 = assignFeatureState extension featureId
                             (\<lambda>s. s\<lparr>disabled := Some (\<not> enabled)\<rparr>) st1;
                     st3 = fire (DidChangeEnablement extension featureId enabled) st2
                 in (Inr (), saveState st3))
              else (Inr (), st1)))"

definition getEnablementData :: "featureId \<Rightarrow> service \<Rightarrow> (extensionId \<times> bool) list" where
  "getEnablementData featureId st =
     (case getExtensionFeature featureId st of
        None \<Rightarrow> []
      | Some feature \<Rightarrow>
          concat (map (\<lambda>(extension, featuresStateMap).
                         (case map_of featuresStateMap featureId of
                            None \<Rightarrow> []
                          | Some featureState \<Rightarrow>
                              (case disabled featureState of
                                 None \<Rightarrow> []
                               | Some d \<Rightarrow> [(extension, \<not> d)])))
                    (extensionFeaturesState st)))"

definition getAccessData ::
    "extensionId \<Rightarrow> featureId \<Rightarrow> service \<Rightarrow> IExtensionFeatureAccessData option" where
  "getAccessData extension featureId st =
     (case getExtensionFeature featureId st of
        None \<Rightarrow> None
      | Some feature \<Rightarrow>
          map_option accessData (getExtensionFeatureState extension featureId st))"

text \<open>
  What a suspended call of \<^verbatim>\<open>getAccess\<close> holds on to: its arguments and the reference
  \<^verbatim>\<open>featureState\<close>. The object referred to is the record of the pair in one map, the one
  in use when the call started; the map is named by the number of maps retired before it.
\<close>

record suspendedAccess =
  suspendedExtension :: extensionId
  suspendedFeatureId :: featureId
  suspendedMap :: nat

text \<open>
  Reading and assigning through the reference: in the map in use if that is the map of the
  reference, in the retired map otherwise.
\<close>

definition featureStateThrough ::
    "suspendedAccess \<Rightarrow> service \<Rightarrow> IExtensionFeatureState option" where
  "featureStateThrough r st =
     (if suspendedMap r = length (retired st)
      then getExtensionFeatureState (suspendedExtension r) (suspendedFeatureId r) st
      else if suspendedMap r < length (retired st)
      then (case map_of (retired st ! suspendedMap r) (suspendedExtension r) of
              None \<Rightarrow> None
            | Some extensionState \<Rightarrow> map_of extensionState (suspendedFeatureId r))
      else None)"

definition assignThrough ::
    "suspendedAccess \<Rightarrow> (IExtensionFeatureState \<Rightarrow> IExtensionFeatureState) \<Rightarrow>
     service \<Rightarrow> service" where
  "assignThrough r f st =
     (if suspendedMap r = length (retired st)
      then assignFeatureState (suspendedExtension r) (suspendedFeatureId r) f st
      else if suspendedMap r < length (retired st)
      then st\<lparr>retired := (retired st)[suspendedMap r :=
                  AList.map_entry (suspendedExtension r)
                    (AList.map_entry (suspendedFeatureId r) f)
                    (retired st ! suspendedMap r)]\<rparr>
      else st)"

text \<open>
  The end of \<^verbatim>\<open>getAccess\<close>, lines 114 to 122: the two assignments to the access data of
  the object \<^verbatim>\<open>featureState\<close> (a count that is absent or \<open>0\<close> is falsy and restarts at
  \<open>1\<close>), \<^verbatim>\<open>saveState\<close>, the event carrying the access data of that object, and the result
  \<^verbatim>\<open>true\<close>. \<open>now\<close> is what \<^verbatim>\<open>Date.now()\<close> returns at that moment.
\<close>

definition recordAccess :: "suspendedAccess \<Rightarrow> int \<Rightarrow> service \<Rightarrow> (error + bool) \<times> service" where
  "recordAccess r now st =
     (let st1 = assignThrough r
                  (\<lambda>s. s\<lparr>accessData := (accessData s)\<lparr>current := Some
                          \<lparr>count = (case current (accessData s) of
                                      None \<Rightarrow> 1
                                    | Some c \<Rightarrow> if count c \<noteq> 0 then count c + 1 else 1),
                           lastAccessed = now,
                           status = (case current (accessData s) of
                                       None \<Rightarrow> None
                                     | Some c \<Rightarrow> status c)\<rparr>\<rparr>\<rparr>) st;
          st2 = assignThrough r
                  (\<lambda>s. s\<lparr>accessData := (accessData s)\<lparr>totalCount :=
                          totalCount (accessData s) + 1\<rparr>\<rparr>) st1;
          st3 = saveState st2
      in (Inr True,
          fire (DidChangeAccessData (suspendedExtension r) (suspendedFeatureId r)
                  (map_option accessData (featureStateThrough r st3)))
            st3))"

text \<open>
  What a call of \<^verbatim>\<open>getAccess\<close> has given when it returns to its caller: a promise that is
  settled, with a boolean or an error, or a promise that awaits the dialog.
\<close>

datatype promise = Settled "error + bool" | Awaiting suspendedAccess

text \<open>
  \<^verbatim>\<open>getAccess\<close> up to the \<^verbatim>\<open>await\<close> of line 100. For an unknown feature and for a pair whose
  \<^verbatim>\<open>disabled\<close> is \<^verbatim>\<open>true\<close> it returns false; for a pair whose \<^verbatim>\<open>disabled\<close> is \<^verbatim>\<open>false\<close> it
  goes on to count the access, at the time \<open>now\<close>; for a pair without a decision it asks the
  dialog and is suspended.
\<close>

definition getAccess ::
    "extensionId \<Rightarrow> featureId \<Rightarrow> int \<Rightarrow> service \<Rightarrow> promise \<times> service" where
  "getAccess extension featureId now st =
     (case getExtensionFeature featureId st of
        None \<Rightarrow> (Settled (Inr False), st)
      | Some feature \<Rightarrow>
          (let (featureState, st1) =
                 getAndSetIfNotExistsExtensionFeatureState extension featureId st;
               r = \<lparr>suspendedExtension = extension, suspendedFeatureId = featureId,
                    suspendedMap = length (retired st1)\<rparr>
           in if disabled featureState = Some True then (Settled (Inr False), st1)
              else if disabled featureState = None then (Awaiting r, st1)
              else (case recordAccess r now st1 of (result, st2) \<Rightarrow> (Settled result, st2))))"

text \<open>
  The rest of a suspended call, lines 108 to 122, run when the dialog has answered
  \<open>confirmed\<close>: \<^verbatim>\<open>setEnablement\<close> with the answer, on the state as it is by then, and for
  the answer \<^verbatim>\<open>true\<close> the counting through the reference the call has kept.
\<close>

definition getAccessAnswered ::
    "suspendedAccess \<Rightarrow> bool \<Rightarrow> int \<Rightarrow> service \<Rightarrow> (error + bool) \<times> service" where
  "getAccessAnswered r confirmed now st =
     (case setEnablement (suspendedExtension r) (suspendedFeatureId r) confirmed st of
        (Inl e, st1) \<Rightarrow> (Inl e, st1)
      | (Inr u, st1) \<Rightarrow>
          if \<not> confirmed then (Inr False, st1) else recordAccess r now st1)"

definition setStatus ::
    "extensionId \<Rightarrow> featureId \<Rightarrow> accessStatus option \<Rightarrow> service \<Rightarrow> (error + unit) \<times> service" where
  "setStatus extension featureId newStatus st =
     (case getExtensionFeature featureId st of
        None \<Rightarrow> (Inl (NoFeature featureId), st)
      | Some feature \<Rightarrow>
          (let (featureState, st1) =
                 getAndSetIfNotExistsExtensionFeatureState extension featureId st;
               st2 = assignFeatureState extension featureId
                       (\<lambda>s. s\<lparr>accessData := (accessData s)\<lparr>current := Some
                               \<lparr>count = (case current (accessData s) of
                                           None \<Rightarrow> 0 | Some c \<Rightarrow> count c),
                                lastAccessed = (case current (accessData s) of
                                                  None \<Rightarrow> 0 | Some c \<Rightarrow> lastAccessed c),
                                status = newStatus\<rparr>\<rparr>\<rparr>) st1
           in (Inr (),
               fire (DidChangeAccessData extension featureId
                       (getAccessData extension featureId st2)) st2)))"

subsection \<open>A change of the storage from outside\<close>

text \<open>
  Modelled from the spec: \<^verbatim>\<open>distinct\<close> of \<^verbatim>\<open>vs/base/common/arrays\<close> and \<^verbatim>\<open>equals\<close> of
  \<^verbatim>\<open>vs/base/common/objects\<close> are not among the sources. The reload is described as
  diff-based: \<^verbatim>\<open>distinct\<close> keeps the first occurrence of every key, \<^verbatim>\<open>equals\<close> is
  structural equality, here the equality of HOL.
\<close>

fun distinct_arrays :: "'a list \<Rightarrow> 'a list" where
  "distinct_arrays [] = []"
| "distinct_arrays (x # xs) = x # distinct_arrays (filter (\<lambda>y. y \<noteq> x) xs)"

definition compareFeature ::
    "(featureId \<times> IExtensionFeatureState) list option \<Rightarrow> extensionId \<Rightarrow> featureId \<Rightarrow>
     service \<Rightarrow> service" where
  "compareFeature oldExtensionFeaturesState extension featureId st =
     (let oldFeatureState =
            (case oldExtensionFeaturesState of None \<Rightarrow> None | Some m \<Rightarrow> map_of m featureId);
          isEnabled' = isEnabled extension featureId st;
          wasEnabled = (case oldFeatureState of
                          None \<Rightarrow> True
                        | Some s \<Rightarrow> disabled s \<noteq> Some True);
          st1 = (if isEnabled' \<noteq> wasEnabled
                 then fire (DidChangeEnablement extension featureId isEnabled') st else st);
          newAccessData = getAccessData extension featureId st1;
          oldAccessData = map_option accessData oldFeatureState
      in if newAccessData \<noteq> oldAccessData
         then fire (DidChangeAccessData extension featureId
                      (Some (case newAccessData of
                               None \<Rightarrow> \<lparr>totalCount = 0, current = None\<rparr>
                             | Some a \<Rightarrow> a))) st1
         else st1)"

definition onDidStorageChange :: "bool \<Rightarrow> service \<Rightarrow> service" where
  "onDidStorageChange external st =
     (if external then
        (let oldState = extensionFeaturesState st;
             st1 = st\<lparr>extensionFeaturesState := loadState (storage st),
                      retired := retired st @ [oldState]\<rparr>
         in fold (\<lambda>extensionId s.
                    (let oldExtensionFeaturesState = map_of oldState extensionId;
                         newExtensionFeaturesState =
                           map_of (extensionFeaturesState s) extensionId
                     in fold (compareFeature oldExtensionFeaturesState extensionId)
                          (distinct_arrays
                             ((case oldExtensionFeaturesState of
                                 None \<Rightarrow> [] | Some m \<Rightarrow> map fst m) @
                              (case newExtensionFeaturesState of
                                 None \<Rightarrow> [] | Some m \<Rightarrow> map fst m)))
                          s))
              (distinct_arrays (map fst oldState @ map fst (extensionFeaturesState st1)))
              st1)
      else st)"

text \<open>
  Another process stores \<open>raw\<close> under the key; the storage service then reports an
  external change to this one.
\<close>

definition externalChange :: "storedValue option \<Rightarrow> service \<Rightarrow> service" where
  "externalChange raw st = onDidStorageChange True (st\<lparr>storage := raw\<rparr>)"

subsection \<open>Sequences of calls\<close>

text \<open>
  What runs on the service, one after the other: a call of one of its operations, with the
  reading of the clock where the operation may take one, or the rest of a suspended
  \<^verbatim>\<open>getAccess\<close> when its dialog is answered. The outcome of a call of \<^verbatim>\<open>getAccess\<close> that is
  suspended is the suspended call; the boolean or the error it settles with is the outcome
  of the answer.
\<close>

datatype operation =
    IsEnabled extensionId featureId
  | SetEnablement extensionId featureId bool
  | GetEnablementData featureId
  | GetAccess extensionId featureId int
  | DialogAnswered suspendedAccess bool int
  | GetAccessData extensionId featureId
  | SetStatus extensionId featureId "accessStatus option"

datatype outcome =
    Thrown error
  | ReturnedVoid
  | ReturnedBool bool
  | ReturnedEnablementData "(extensionId \<times> bool) list"
  | ReturnedAccessData "IExtensionFeatureAccessData option"
  | Suspended suspendedAccess

fun call :: "operation \<Rightarrow> service \<Rightarrow> outcome \<times> service" where
  "call (IsEnabled extension featureId) st =
     (ReturnedBool (isEnabled extension featureId st), st)"
| "call (SetEnablement extension featureId enabled) st =
     (case setEnablement extension featureId enabled st of
        (Inl e, st') \<Rightarrow> (Thrown e, st')
      | (Inr u, st') \<Rightarrow> (ReturnedVoid, st'))"
| "call (GetEnablementData featureId) st =
     (ReturnedEnablementData (getEnablementData featureId st), st)"
| "call (GetAccess extension featureId now) st =
     (case getAccess extension featureId now st of
        (Settled (Inl e), st') \<Rightarrow> (Thrown e, st')
      | (Settled (Inr b), st') \<Rightarrow> (ReturnedBool b, st')
      | (Awaiting r, st') \<Rightarrow> (Suspended r, st'))"
| "call (DialogAnswered r confirmed now) st =
     (case getAccessAnswered r confirmed now st of
        (Inl e, st') \<Rightarrow> (Thrown e, st')
      | (Inr b, st') \<Rightarrow> (ReturnedBool b, st'))"
| "call (GetAccessData extension featureId) st =
     (ReturnedAccessData (getAccessData extension featureId st), st)"
| "call (SetStatus extension featureId newStatus) st =
     (case setStatus extension featureId newStatus st of
        (Inl e, st') \<Rightarrow> (Thrown e, st')
      | (Inr u, st') \<Rightarrow> (ReturnedVoid, st'))"

fun calls :: "operation list \<Rightarrow> service \<Rightarrow> outcome list \<times> service" where
  "calls [] st = ([], st)"
| "calls (x # xs) st =
     (let (r, st1) = call x st; (rs, st2) = calls xs st1 in (r # rs, st2))"

subsection \<open>What a pair holds\<close>

text \<open>
  The fields of the record of a pair, read the way the service reads them
  (\<^verbatim>\<open>getExtensionFeatureState(extension, featureId)?.disabled\<close> and so on). Where there
  is no record, \<open>totalCountOf\<close> and \<open>countOf\<close> are \<open>0\<close>, the value a record is created
  with and the default of \<^verbatim>\<open>current?.count ?? 0\<close>.
\<close>

definition disabledOf :: "extensionId \<Rightarrow> featureId \<Rightarrow> service \<Rightarrow> bool option" where
  "disabledOf extension featureId st =
     (case getExtensionFeatureState extension featureId st of
        None \<Rightarrow> None
      | Some featureState \<Rightarrow> disabled featureState)"

definition totalCountOf :: "extensionId \<Rightarrow> featureId \<Rightarrow> service \<Rightarrow> int" where
  "totalCountOf extension featureId st =
     (case getExtensionFeatureState extension featureId st of
        None \<Rightarrow> 0
      | Some featureState \<Rightarrow> totalCount (accessData featureState))"

definition currentOf :: "extensionId \<Rightarrow> featureId \<Rightarrow> service \<Rightarrow> currentAccess option" where
  "currentOf extension featureId st =
     (case getExtensionFeatureState extension featureId st of
        None \<Rightarrow> None
      | Some featureState \<Rightarrow> current (accessData featureState))"

definition countOf :: "extensionId \<Rightarrow> featureId \<Rightarrow> service \<Rightarrow> int" where
  "countOf extension featureId st =
     (case currentOf extension featureId st of None \<Rightarrow> 0 | Some c \<Rightarrow> count c)"

definition statusOf :: "extensionId \<Rightarrow> featureId \<Rightarrow> service \<Rightarrow> accessStatus option" where
  "statusOf extension featureId st =
     (case currentOf extension featureId st of None \<Rightarrow> None | Some c \<Rightarrow> status c)"

text \<open>\<^verbatim>\<open>data[extensionId][featureId]\<close> of the stored dictionary, if the value parses.\<close>

definition storedFeatureOf ::
    "extensionId \<Rightarrow> featureId \<Rightarrow> storedValue option \<Rightarrow> storedFeature option" where
  "storedFeatureOf extension featureId raw =
     (case raw of
        Some (Json data) \<Rightarrow>
          (case map_of data extension of
             None \<Rightarrow> None
           | Some extensionFeatures \<Rightarrow> map_of extensionFeatures featureId)
      | _ \<Rightarrow> None)"

subsection \<open>Kinds of calls and of effects\<close>

text \<open>
  The two reading operations, the enablement events, and the granted accesses. An access
  is granted where \<^verbatim>\<open>getAccess\<close> gives \<^verbatim>\<open>true\<close>: at once for an enabled pair, or when the
  dialog is answered. \<open>granted g\<close> are the grants recorded on the record of the pair in the
  map with the number \<open>g\<close>; a grant whose dialog was open while the map was replaced is
  recorded on the record of the replaced map.
\<close>

fun observation :: "operation \<Rightarrow> bool" where
  "observation (IsEnabled extension featureId) = True"
| "observation (GetAccessData extension featureId) = True"
| "observation x = False"

fun enablementEvent :: "effect \<Rightarrow> bool" where
  "enablementEvent (DidChangeEnablement extension featureId enabled) = True"
| "enablementEvent x = False"

fun granted :: "nat \<Rightarrow> extensionId \<Rightarrow> featureId \<Rightarrow> operation \<times> outcome \<Rightarrow> bool" where
  "granted g extension featureId (GetAccess e f now, ReturnedBool b) =
     (b \<and> e = extension \<and> f = featureId)"
| "granted g extension featureId (DialogAnswered r confirmed now, ReturnedBool b) =
     (b \<and> suspendedExtension r = extension \<and> suspendedFeatureId r = featureId \<and>
      suspendedMap r = g)"
| "granted g extension featureId other = False"

text \<open>\<^verbatim>\<open>getAccess\<close> called once for every element of a list of times.\<close>

definition accessCalls :: "extensionId \<Rightarrow> featureId \<Rightarrow> int list \<Rightarrow> operation list" where
  "accessCalls extension featureId ts = map (GetAccess extension featureId) ts"

subsection \<open>Reachable states\<close>

text \<open>
  The states a service can be in when the storage key is written by this service only.
  It starts on an empty profile, with any registry; it may be started again on what was
  stored, again with any registry (another build, another machine sharing the profile);
  any of its operations may be called; features may be registered or unregistered; and it
  may be told of a change made by another instance (another window), which stored its own
  state at some moment, not necessarily the latest.
\<close>

inductive reachable :: "service \<Rightarrow> bool" where
    fresh: "reachable (construct reg None)"
  | restart: "reachable st \<Longrightarrow> reachable (construct reg (storage st))"
  | called: "reachable st \<Longrightarrow> reachable (snd (call x st))"
  | contributed: "reachable st \<Longrightarrow> reachable (st\<lparr>registry := reg\<rparr>)"
  | external: "reachable st \<Longrightarrow> reachable st' \<Longrightarrow>
               reachable (externalChange (storage st') st)"

text \<open>
  The invariant of the reachable states: as long as no decision is recorded for a pair, in
  memory or in the storage, no access is counted for it.
\<close>

definition unusedWhileUndecided :: "IExtensionFeatureState \<Rightarrow> bool" where
  "unusedWhileUndecided s =
     (disabled s = None \<longrightarrow>
        totalCount (accessData s) = 0 \<and>
        (case current (accessData s) of None \<Rightarrow> True | Some c \<Rightarrow> count c = 0))"

definition consistent :: "service \<Rightarrow> bool" where
  "consistent st =
     ((\<forall>e f s. getExtensionFeatureState e f st = Some s \<longrightarrow> unusedWhileUndecided s) \<and>
      (\<forall>e f x. storedFeatureOf e f (storage st) = Some x \<longrightarrow>
         unusedWhileUndecided (loadFeature x)))"

subsection \<open>Example states\<close>

text \<open>
  A registry with the feature \<^verbatim>\<open>codeActions\<close> that \<^verbatim>\<open>part_000\<close> registers, and a larger one
  with a second feature. \<open>demoWriter\<close> is a service with the larger registry that has
  granted accesses to both features and then disabled the first; \<open>demoLoaded\<close> is a service
  with the smaller registry started on what \<open>demoWriter\<close> stored, so that it holds a record
  of a feature that is not registered. The other states are reached from an empty profile
  with the smaller registry. \<open>demoDialog\<close> and \<open>demoTelemetryDialog\<close> are the calls of
  \<^verbatim>\<open>getAccess\<close> that are suspended in these runs, all of them on the first map of a
  service.
\<close>

definition demoDialog :: suspendedAccess where
  "demoDialog =
     \<lparr>suspendedExtension = ''pub.ext'', suspendedFeatureId = ''codeActions'',
      suspendedMap = 0\<rparr>"

definition demoTelemetryDialog :: suspendedAccess where
  "demoTelemetryDialog =
     \<lparr>suspendedExtension = ''pub.ext'', suspendedFeatureId = ''telemetry'',
      suspendedMap = 0\<rparr>"

definition demoRegistry :: "(featureId \<times> IExtensionFeature) list" where
  "demoRegistry = [(''codeActions'', \<lparr>label = ''Code Actions'', description = []\<rparr>)]"

definition demoLargerRegistry :: "(featureId \<times> IExtensionFeature) list" where
  "demoLargerRegistry =
     [(''codeActions'', \<lparr>label = ''Code Actions'', description = []\<rparr>),
      (''telemetry'', \<lparr>label = ''Telemetry'', description = ''Usage data''\<rparr>)]"

definition demoWriter :: service where
  "demoWriter =
     snd (calls [GetAccess ''pub.ext'' ''codeActions'' 0,
                 DialogAnswered demoDialog True 1,
                 GetAccess ''pub.ext'' ''codeActions'' 2,
                 SetEnablement ''pub.ext'' ''codeActions'' False,
                 GetAccess ''pub.ext'' ''telemetry'' 2,
                 DialogAnswered demoTelemetryDialog True 3,
                 GetAccess ''pub.ext'' ''telemetry'' 4,
                 GetAccess ''pub.ext'' ''telemetry'' 5]
            (construct demoLargerRegistry None))"

definition demoStored :: storedValue where
  "demoStored =
     Json [(''pub.ext'',
            [(''codeActions'', \<lparr>storedDisabled = Some True, accessCount = 2\<rparr>),
             (''telemetry'', \<lparr>storedDisabled = Some False, accessCount = 3\<rparr>)])]"

definition demoLoaded :: service where
  "demoLoaded = construct demoRegistry (Some demoStored)"

definition demoFresh :: service where
  "demoFresh = construct demoRegistry None"

definition demoWarned :: service where
  "demoWarned =
     snd (call (SetStatus ''pub.ext'' ''codeActions''
                  (Some \<lparr>severity = Warning, message = ''slow''\<rparr>)) demoFresh)"

definition demoEnabled :: service where
  "demoEnabled = snd (call (SetEnablement ''pub.ext'' ''codeActions'' True) demoFresh)"

definition demoTwice :: service where
  "demoTwice =
     snd (calls [GetAccess ''pub.ext'' ''codeActions'' 5,
                 DialogAnswered demoDialog True 10,
                 GetAccess ''pub.ext'' ''codeActions'' 20] demoFresh)"

definition demoOnce :: service where
  "demoOnce =
     snd (calls [GetAccess ''pub.ext'' ''codeActions'' 25,
                 DialogAnswered demoDialog True 30] demoFresh)"

text \<open>
  \<open>demoAsked\<close>: the dialog of a first access is open, and a status has been set for the
  pair in the meantime. \<open>demoBothAllowed\<close> and \<open>demoAllowedThenDenied\<close>: two calls of
  \<^verbatim>\<open>getAccess\<close> on the same pair, the second made while the dialog of the first is open,
  and then the two answers.
\<close>

definition demoAsked :: service where
  "demoAsked =
     snd (calls [GetAccess ''pub.ext'' ''codeActions'' 1600,
                 SetStatus ''pub.ext'' ''codeActions''
                   (Some \<lparr>severity = Warning, message = ''slow''\<rparr>)] demoFresh)"



text \<open>
  \<open>demoReloaded\<close>: the dialog of a first access is open when the service is told of a
  change of the storage made by an instance on an empty profile; the map is replaced.
\<close>

definition demoReloaded :: service where
  "demoReloaded =
     externalChange (storage demoFresh)
       (snd (call (GetAccess ''pub.ext'' ''codeActions'' 1600) demoFresh))"

definition demoDisabled :: service where
  "demoDisabled =
     construct demoRegistry
       (storage (snd (call (SetEnablement ''pub.ext'' ''codeActions'' False) demoFresh)))"

section \<open>Properties\<close>

subsection \<open>The state after each primitive step\<close>

lemma getAndSet_fields [simp]:
  "registry (snd (getAndSetIfNotExistsExtensionFeatureState e f st)) = registry st"
  "storage (snd (getAndSetIfNotExistsExtensionFeatureState e f st)) = storage st"
  "trace (snd (getAndSetIfNotExistsExtensionFeatureState e f st)) = trace st"
  "retired (snd (getAndSetIfNotExistsExtensionFeatureState e f st)) = retired st"
  by (simp_all add: getAndSetIfNotExistsExtensionFeatureState_def Let_def
      split: option.splits prod.splits)

lemma getAndSet_existing:
  "getExtensionFeatureState e f st = Some s \<Longrightarrow>
   getAndSetIfNotExistsExtensionFeatureState e f st = (s, st)"
  by (auto simp add: getAndSetIfNotExistsExtensionFeatureState_def getExtensionFeatureState_def
      Let_def split: option.splits prod.splits)

lemma getAndSet_fst:
  "fst (getAndSetIfNotExistsExtensionFeatureState e f st) =
     (case getExtensionFeatureState e f st of
        None \<Rightarrow> \<lparr>disabled = None, accessData = \<lparr>totalCount = 0, current = None\<rparr>\<rparr>
      | Some s \<Rightarrow> s)"
  by (auto simp add: getAndSetIfNotExistsExtensionFeatureState_def getExtensionFeatureState_def
      Let_def split: option.splits prod.splits)

lemma getAndSet_lookup:
  "getExtensionFeatureState e' f' (snd (getAndSetIfNotExistsExtensionFeatureState e f st)) =
     (if e' = e \<and> f' = f then Some (fst (getAndSetIfNotExistsExtensionFeatureState e f st))
      else getExtensionFeatureState e' f' st)"
  by (auto simp add: getAndSetIfNotExistsExtensionFeatureState_def getExtensionFeatureState_def
      Let_def AList.update_conv' AList.map_of_map_entry split: option.splits prod.splits)

lemma assign_lookup:
  "getExtensionFeatureState e' f' (assignFeatureState e f g st) =
     (if e' = e \<and> f' = f then map_option g (getExtensionFeatureState e f st)
      else getExtensionFeatureState e' f' st)"
  by (auto simp add: assignFeatureState_def getExtensionFeatureState_def
      AList.map_of_map_entry split: option.splits)

lemma assign_fields [simp]:
  "registry (assignFeatureState e f g st) = registry st"
  "storage (assignFeatureState e f g st) = storage st"
  "trace (assignFeatureState e f g st) = trace st"
  "retired (assignFeatureState e f g st) = retired st"
  by (simp_all add: assignFeatureState_def)

lemma fire_fields [simp]:
  "registry (fire x st) = registry st"
  "storage (fire x st) = storage st"
  "trace (fire x st) = trace st @ [x]"
  "extensionFeaturesState (fire x st) = extensionFeaturesState st"
  "retired (fire x st) = retired st"
  by (simp_all add: fire_def)

lemma saveState_fields [simp]:
  "registry (saveState st) = registry st"
  "storage (saveState st) = Some (Json (saveData (extensionFeaturesState st)))"
  "trace (saveState st) = trace st @ [Store (Json (saveData (extensionFeaturesState st)))]"
  "extensionFeaturesState (saveState st) = extensionFeaturesState st"
  "retired (saveState st) = retired st"
  by (simp_all add: saveState_def Let_def)

lemma lookup_after_effect [simp]:
  "getExtensionFeatureState e f (fire x st) = getExtensionFeatureState e f st"
  "getExtensionFeatureState e f (saveState st) = getExtensionFeatureState e f st"
  by (simp_all add: getExtensionFeatureState_def)

lemma feature_after_step [simp]:
  "getExtensionFeature f (fire x st) = getExtensionFeature f st"
  "getExtensionFeature f (saveState st) = getExtensionFeature f st"
  "getExtensionFeature f (assignFeatureState e f' g st) = getExtensionFeature f st"
  "getExtensionFeature f (snd (getAndSetIfNotExistsExtensionFeatureState e f' st)) =
     getExtensionFeature f st"
  by (simp_all add: getExtensionFeature_def)

lemmas pair_defs = disabledOf_def totalCountOf_def currentOf_def

text \<open>
  Through a reference into the map in use, reading and assigning are reading and assigning
  in that map; through a reference into a retired map they leave the map in use alone.
\<close>

lemma through_live:
  "suspendedMap r = length (retired st) \<Longrightarrow>
   featureStateThrough r st =
     getExtensionFeatureState (suspendedExtension r) (suspendedFeatureId r) st"
  "suspendedMap r = length (retired st) \<Longrightarrow>
   assignThrough r g st = assignFeatureState (suspendedExtension r) (suspendedFeatureId r) g st"
  by (simp_all add: featureStateThrough_def assignThrough_def)

lemma assignThrough_fields [simp]:
  "registry (assignThrough r g st) = registry st"
  "storage (assignThrough r g st) = storage st"
  "trace (assignThrough r g st) = trace st"
  "length (retired (assignThrough r g st)) = length (retired st)"
  "getExtensionFeature f (assignThrough r g st) = getExtensionFeature f st"
  by (simp_all add: assignThrough_def getExtensionFeature_def)

lemma assignThrough_stale:
  "suspendedMap r \<noteq> length (retired st) \<Longrightarrow>
   extensionFeaturesState (assignThrough r g st) = extensionFeaturesState st"
  "suspendedMap r \<noteq> length (retired st) \<Longrightarrow>
   getExtensionFeatureState e f (assignThrough r g st) = getExtensionFeatureState e f st"
  by (simp_all add: assignThrough_def getExtensionFeatureState_def)

lemma call_fst_getAccess:
  "fst (call (GetAccess e f t) st) =
     (case fst (getAccess e f t st) of
        Settled (Inl x) \<Rightarrow> Thrown x
      | Settled (Inr b) \<Rightarrow> ReturnedBool b
      | Awaiting r \<Rightarrow> Suspended r)"
  "fst (call (DialogAnswered r c t) st) =
     (case fst (getAccessAnswered r c t st) of Inl x \<Rightarrow> Thrown x | Inr b \<Rightarrow> ReturnedBool b)"
  by (simp_all split: prod.splits sum.splits promise.splits)

lemma call_snd:
  "snd (call (IsEnabled e f) st) = st"
  "snd (call (SetEnablement e f en) st) = snd (setEnablement e f en st)"
  "snd (call (GetEnablementData f) st) = st"
  "snd (call (GetAccess e f t) st) = snd (getAccess e f t st)"
  "snd (call (DialogAnswered r c t) st) = snd (getAccessAnswered r c t st)"
  "snd (call (GetAccessData e f) st) = st"
  "snd (call (SetStatus e f x) st) = snd (setStatus e f x st)"
  by (simp_all split: prod.splits sum.splits promise.splits)

lemma calls_Cons:
  "fst (calls (x # xs) st) = fst (call x st) # fst (calls xs (snd (call x st)))"
  "snd (calls (x # xs) st) = snd (calls xs (snd (call x st)))"
  by (simp_all add: case_prod_beta)

lemma reachable_calls:
  "reachable st \<Longrightarrow> reachable (snd (calls xs st))"
proof (induction xs arbitrary: st)
  case Nil
  then show ?case by simp
next
  case (Cons x xs)
  from Cons.prems have "reachable (snd (call x st))" by (rule reachable.called)
  then have "reachable (snd (calls xs (snd (call x st))))" by (rule Cons.IH)
  then show ?case by (simp add: case_prod_beta)
qed

lemma demo_reachable:
  "reachable demoFresh"
  "reachable demoWarned"
  "reachable demoEnabled"
  "reachable demoTwice"
  "reachable demoOnce"
  "reachable demoDisabled"
  "reachable demoWriter"
  "reachable demoAsked"
  unfolding demoFresh_def demoWarned_def demoEnabled_def demoTwice_def demoOnce_def
    demoDisabled_def demoWriter_def demoAsked_def
  by (intro reachable.fresh reachable.called reachable.restart reachable_calls)+

lemma demoLoaded_reachable:
  "reachable demoLoaded"
proof -
  have "storage demoWriter = Some demoStored" by code_simp
  with reachable.restart [OF demo_reachable(7), of demoRegistry] show ?thesis
    by (simp add: demoLoaded_def)
qed

subsection \<open>Features that are not registered\<close>

text \<open>
  Claim C7. For a feature id that is not registered, whatever the state holds,
  \<^verbatim>\<open>isEnabled\<close> returns false, \<^verbatim>\<open>getAccessData\<close> returns \<^verbatim>\<open>undefined\<close>, and \<^verbatim>\<open>getAccess\<close>
  returns false at once (its promise is settled when the call returns, no dialog is
  asked) without throwing and leaves the whole state as it was: no record is created.
\<close>

theorem unknown_feature_reads:
  assumes "getExtensionFeature featureId st = None"
  shows "isEnabled extension featureId st = False \<and>
         getAccessData extension featureId st = None \<and>
         getAccess extension featureId now st = (Settled (Inr False), st)"
  using assms by (simp add: isEnabled_def getAccessData_def getAccess_def)

theorem unknown_feature_reads_witness:
  "reachable demoLoaded \<and>
   getExtensionFeature ''telemetry'' demoLoaded = None \<and>
   getExtensionFeatureState ''pub.ext'' ''telemetry'' demoLoaded =
     Some \<lparr>disabled = Some False, accessData = \<lparr>totalCount = 3, current = None\<rparr>\<rparr> \<and>
   isEnabled ''pub.ext'' ''telemetry'' demoLoaded = False \<and>
   getAccessData ''pub.ext'' ''telemetry'' demoLoaded = None \<and>
   getAccess ''pub.ext'' ''telemetry'' 5 demoLoaded = (Settled (Inr False), demoLoaded)"
proof -
  have unknown: "getExtensionFeature ''telemetry'' demoLoaded = None"
    by code_simp
  have prior: "getExtensionFeatureState ''pub.ext'' ''telemetry'' demoLoaded =
      Some \<lparr>disabled = Some False, accessData = \<lparr>totalCount = 3, current = None\<rparr>\<rparr>"
    by code_simp
  from unknown_feature_reads [OF unknown, where extension = "''pub.ext''" and now = 5]
    unknown prior demoLoaded_reachable
  show ?thesis by simp
qed

text \<open>
  Claim C8. For a feature id that is not registered, \<^verbatim>\<open>setEnablement\<close> and \<^verbatim>\<open>setStatus\<close>
  throw the error naming the feature, and the state at the throw is the state before the
  call: the records, the stored value and the trace of events and writes are untouched.
\<close>

theorem unknown_feature_writes:
  assumes "getExtensionFeature featureId st = None"
  shows "setEnablement extension featureId enabled st = (Inl (NoFeature featureId), st) \<and>
         setStatus extension featureId newStatus st = (Inl (NoFeature featureId), st)"
  using assms by (simp add: setEnablement_def setStatus_def)

theorem unknown_feature_writes_witness:
  "getExtensionFeature ''telemetry'' demoLoaded = None \<and>
   setEnablement ''pub.ext'' ''telemetry'' True demoLoaded =
     (Inl (NoFeature ''telemetry''), demoLoaded) \<and>
   setStatus ''pub.ext'' ''telemetry'' None demoLoaded =
     (Inl (NoFeature ''telemetry''), demoLoaded)"
proof -
  have unknown: "getExtensionFeature ''telemetry'' demoLoaded = None"
    by code_simp
  from unknown_feature_writes [OF unknown, where extension = "''pub.ext''"
      and enabled = True and newStatus = None] unknown
  show ?thesis by simp
qed

subsection \<open>\<^verbatim>\<open>setStatus\<close>\<close>

text \<open>
  Claim C6. A call of \<^verbatim>\<open>setStatus\<close> on a registered feature returns normally. Afterwards
  the pair has a record whose session data hold the new status with the count and the time
  of the last access it had before (\<open>0\<close> each when it had no session data); the lifetime
  total and the decision of the pair are what they were, every other pair is untouched, the
  trace grows by exactly one access-data event carrying the new access data, and nothing
  is stored.
\<close>

theorem setStatus_changes_status_only:
  assumes "getExtensionFeature featureId st = Some feature"
  shows "fst (setStatus extension featureId newStatus st) = Inr () \<and>
    (let st' = snd (setStatus extension featureId newStatus st);
         old = currentOf extension featureId st
     in getExtensionFeatureState extension featureId st' \<noteq> None \<and>
        currentOf extension featureId st' =
          Some \<lparr>count = (case old of None \<Rightarrow> 0 | Some c \<Rightarrow> count c),
                lastAccessed = (case old of None \<Rightarrow> 0 | Some c \<Rightarrow> lastAccessed c),
                status = newStatus\<rparr> \<and>
        totalCountOf extension featureId st' = totalCountOf extension featureId st \<and>
        disabledOf extension featureId st' = disabledOf extension featureId st \<and>
        (\<forall>e f. (e, f) \<noteq> (extension, featureId) \<longrightarrow>
           getExtensionFeatureState e f st' = getExtensionFeatureState e f st) \<and>
        trace st' = trace st @
          [DidChangeAccessData extension featureId (getAccessData extension featureId st')] \<and>
        getAccessData extension featureId st' \<noteq> None \<and>
        storage st' = storage st \<and> registry st' = registry st)"
  using assms
  by (auto simp add: setStatus_def Let_def case_prod_beta pair_defs getAccessData_def
      getAndSet_fst getAndSet_lookup assign_lookup split: option.splits)

theorem setStatus_changes_status_only_witness:
  "getExtensionFeature ''codeActions'' demoTwice =
     Some \<lparr>label = ''Code Actions'', description = []\<rparr> \<and>
   currentOf ''pub.ext'' ''codeActions'' demoTwice =
     Some \<lparr>count = 2, lastAccessed = 20, status = None\<rparr> \<and>
   fst (setStatus ''pub.ext'' ''codeActions''
          (Some \<lparr>severity = Error, message = ''failed''\<rparr>) demoTwice) = Inr () \<and>
   currentOf ''pub.ext'' ''codeActions''
     (snd (setStatus ''pub.ext'' ''codeActions''
             (Some \<lparr>severity = Error, message = ''failed''\<rparr>) demoTwice)) =
     Some \<lparr>count = 2, lastAccessed = 20,
           status = Some \<lparr>severity = Error, message = ''failed''\<rparr>\<rparr> \<and>
   totalCountOf ''pub.ext'' ''codeActions''
     (snd (setStatus ''pub.ext'' ''codeActions''
             (Some \<lparr>severity = Error, message = ''failed''\<rparr>) demoTwice)) =
     totalCountOf ''pub.ext'' ''codeActions'' demoTwice \<and>
   disabledOf ''pub.ext'' ''codeActions''
     (snd (setStatus ''pub.ext'' ''codeActions''
             (Some \<lparr>severity = Error, message = ''failed''\<rparr>) demoTwice)) =
     disabledOf ''pub.ext'' ''codeActions'' demoTwice \<and>
   (''other.ext'', ''codeActions'') \<noteq> (''pub.ext'', ''codeActions'') \<and>
   getExtensionFeatureState ''other.ext'' ''codeActions''
     (snd (setStatus ''pub.ext'' ''codeActions''
             (Some \<lparr>severity = Error, message = ''failed''\<rparr>) demoTwice)) =
     getExtensionFeatureState ''other.ext'' ''codeActions'' demoTwice \<and>
   trace (snd (setStatus ''pub.ext'' ''codeActions''
             (Some \<lparr>severity = Error, message = ''failed''\<rparr>) demoTwice)) =
     trace demoTwice @
     [DidChangeAccessData ''pub.ext'' ''codeActions''
        (Some \<lparr>totalCount = 2,
              current = Some \<lparr>count = 2, lastAccessed = 20,
                status = Some \<lparr>severity = Error, message = ''failed''\<rparr>\<rparr>\<rparr>)] \<and>
   storage (snd (setStatus ''pub.ext'' ''codeActions''
             (Some \<lparr>severity = Error, message = ''failed''\<rparr>) demoTwice)) =
     storage demoTwice"
proof -
  have f: "getExtensionFeature ''codeActions'' demoTwice =
      Some \<lparr>label = ''Code Actions'', description = []\<rparr>" by code_simp
  have c: "currentOf ''pub.ext'' ''codeActions'' demoTwice =
      Some \<lparr>count = 2, lastAccessed = 20, status = None\<rparr>" by code_simp
  have a: "getAccessData ''pub.ext'' ''codeActions''
     (snd (setStatus ''pub.ext'' ''codeActions''
             (Some \<lparr>severity = Error, message = ''failed''\<rparr>) demoTwice)) =
     Some \<lparr>totalCount = 2,
              current = Some \<lparr>count = 2, lastAccessed = 20,
                status = Some \<lparr>severity = Error, message = ''failed''\<rparr>\<rparr>\<rparr>" by code_simp
  have n: "(''other.ext'', ''codeActions'') \<noteq> (''pub.ext'', ''codeActions'')" by simp
  from setStatus_changes_status_only [OF f, where extension = "''pub.ext''"
      and newStatus = "Some \<lparr>severity = Error, message = ''failed''\<rparr>"] f c a n
  show ?thesis by (simp add: Let_def)
qed

subsection \<open>\<^verbatim>\<open>setEnablement\<close>\<close>

lemma isEnabled_disabledOf:
  "getExtensionFeature f st = Some feature \<Longrightarrow>
   isEnabled e f st = (disabledOf e f st \<noteq> Some True)"
  by (auto simp add: isEnabled_def disabledOf_def split: option.splits)

lemma setEnablement_returns:
  "getExtensionFeature f st = Some feature \<Longrightarrow> fst (setEnablement e f en st) = Inr ()"
  by (simp add: setEnablement_def Let_def case_prod_beta)

lemma setEnablement_same:
  assumes "getExtensionFeature f st = Some feature" "disabledOf e f st = Some (\<not> en)"
  shows "snd (setEnablement e f en st) = st"
  using assms
  by (auto simp add: setEnablement_def disabledOf_def getAndSet_existing split: option.splits)

lemma setEnablement_change:
  assumes "getExtensionFeature f st = Some feature" "disabledOf e f st \<noteq> Some (\<not> en)"
  shows "disabledOf e f (snd (setEnablement e f en st)) = Some (\<not> en)"
    and "totalCountOf e f (snd (setEnablement e f en st)) = totalCountOf e f st"
    and "currentOf e f (snd (setEnablement e f en st)) = currentOf e f st"
    and "getExtensionFeatureState e f (snd (setEnablement e f en st)) \<noteq> None"
    and "trace (snd (setEnablement e f en st)) = trace st @
          [DidChangeEnablement e f en,
           Store (Json (saveData (extensionFeaturesState (snd (setEnablement e f en st)))))]"
    and "storage (snd (setEnablement e f en st)) =
          Some (Json (saveData (extensionFeaturesState (snd (setEnablement e f en st)))))"
  using assms
  by (auto simp add: setEnablement_def pair_defs Let_def case_prod_beta getAndSet_fst
      getAndSet_lookup assign_lookup split: option.splits)

lemma setEnablement_registry:
  "registry (snd (setEnablement e f en st)) = registry st"
  by (auto simp add: setEnablement_def Let_def case_prod_beta split: option.splits)

lemma setEnablement_feature:
  "getExtensionFeature f' (snd (setEnablement e f en st)) = getExtensionFeature f' st"
  by (simp add: getExtensionFeature_def setEnablement_registry)

lemma setEnablement_retired:
  "retired (snd (setEnablement e f en st)) = retired st"
  by (auto simp add: setEnablement_def Let_def case_prod_beta split: option.splits)

lemma setEnablement_decided:
  assumes "getExtensionFeature f st = Some feature"
  shows "disabledOf e f (snd (setEnablement e f en st)) = Some (\<not> en)"
proof (cases "disabledOf e f st = Some (\<not> en)")
  case True
  with setEnablement_same [OF assms True] show ?thesis by simp
next
  case False
  from setEnablement_change(1) [OF assms False] show ?thesis .
qed

text \<open>
  Claim C4, as amended. On a registered feature \<^verbatim>\<open>setEnablement\<close> returns normally. If the
  stored flag already is the negation of \<open>enabled\<close>, the call changes nothing at all;
  otherwise it sets the flag, fires one enablement event and then stores the state. In
  both cases a second call with the same value changes nothing. After
  \<^verbatim>\<open>setEnablement(false)\<close> followed by \<^verbatim>\<open>setEnablement(true)\<close> the pair is enabled, and the
  two calls have fired two enablement events if the pair was not disabled before and one
  event, that of the second call, if it was.
\<close>

theorem setEnablement_fires_iff_changed:
  assumes "getExtensionFeature featureId st = Some feature"
  shows "fst (setEnablement extension featureId enabled st) = Inr () \<and>
    (let st' = snd (setEnablement extension featureId enabled st)
     in (if disabledOf extension featureId st = Some (\<not> enabled) then st' = st
         else disabledOf extension featureId st' = Some (\<not> enabled) \<and>
              trace st' = trace st @
                [DidChangeEnablement extension featureId enabled,
                 Store (Json (saveData (extensionFeaturesState st')))] \<and>
              storage st' = Some (Json (saveData (extensionFeaturesState st')))) \<and>
        snd (setEnablement extension featureId enabled st') = st') \<and>
    (let st2 = snd (setEnablement extension featureId True
                      (snd (setEnablement extension featureId False st)))
     in isEnabled extension featureId st2 \<and>
        filter enablementEvent (trace st2) =
          filter enablementEvent (trace st) @
          (if disabledOf extension featureId st = Some True then []
           else [DidChangeEnablement extension featureId False]) @
          [DidChangeEnablement extension featureId True])"
proof -
  let ?s1 = "snd (setEnablement extension featureId enabled st)"
  have reg1: "getExtensionFeature featureId ?s1 = Some feature"
    using assms by (simp add: setEnablement_feature)
  have after: "disabledOf extension featureId ?s1 = Some (\<not> enabled)"
    using setEnablement_same [OF assms] setEnablement_change(1) [OF assms]
    by (cases "disabledOf extension featureId st = Some (\<not> enabled)") auto
  have idem: "snd (setEnablement extension featureId enabled ?s1) = ?s1"
    by (rule setEnablement_same [OF reg1 after])
  let ?a = "snd (setEnablement extension featureId False st)"
  let ?b = "snd (setEnablement extension featureId True ?a)"
  have rega: "getExtensionFeature featureId ?a = Some feature"
    using assms by (simp add: setEnablement_feature)
  have regb: "getExtensionFeature featureId ?b = Some feature"
    using rega by (simp add: setEnablement_feature)
  have da: "disabledOf extension featureId ?a = Some True"
    using setEnablement_same [OF assms, of extension False]
      setEnablement_change(1) [OF assms, of extension False]
    by (cases "disabledOf extension featureId st = Some True") auto
  have db: "disabledOf extension featureId ?b = Some False"
    using setEnablement_change(1) [OF rega, of extension True] da by simp
  have tb: "filter enablementEvent (trace ?b) =
      filter enablementEvent (trace ?a) @ [DidChangeEnablement extension featureId True]"
    using setEnablement_change(5) [OF rega, of extension True] da by simp
  have ta: "filter enablementEvent (trace ?a) = filter enablementEvent (trace st) @
      (if disabledOf extension featureId st = Some True then []
       else [DidChangeEnablement extension featureId False])"
    using setEnablement_same [OF assms, of extension False]
      setEnablement_change(5) [OF assms, of extension False]
    by (cases "disabledOf extension featureId st = Some True") auto
  show ?thesis
    using setEnablement_returns [OF assms] setEnablement_same [OF assms]
      setEnablement_change(1,5,6) [OF assms] idem db tb ta isEnabled_disabledOf [OF regb]
    by (simp add: Let_def)
qed

theorem setEnablement_fires_iff_changed_witness:
  "getExtensionFeature ''codeActions'' demoFresh =
     Some \<lparr>label = ''Code Actions'', description = []\<rparr> \<and>
   disabledOf ''pub.ext'' ''codeActions'' demoFresh = None \<and>
   fst (setEnablement ''pub.ext'' ''codeActions'' False demoFresh) = Inr () \<and>
   disabledOf ''pub.ext'' ''codeActions''
     (snd (setEnablement ''pub.ext'' ''codeActions'' False demoFresh)) = Some True \<and>
   trace (snd (setEnablement ''pub.ext'' ''codeActions'' False demoFresh)) =
     [DidChangeEnablement ''pub.ext'' ''codeActions'' False,
      Store (Json [(''pub.ext'',
                    [(''codeActions'', \<lparr>storedDisabled = Some True, accessCount = 0\<rparr>)])])] \<and>
   snd (setEnablement ''pub.ext'' ''codeActions'' False
          (snd (setEnablement ''pub.ext'' ''codeActions'' False demoFresh))) =
     snd (setEnablement ''pub.ext'' ''codeActions'' False demoFresh) \<and>
   isEnabled ''pub.ext'' ''codeActions''
     (snd (setEnablement ''pub.ext'' ''codeActions'' True
        (snd (setEnablement ''pub.ext'' ''codeActions'' False demoFresh)))) \<and>
   filter enablementEvent
     (trace (snd (setEnablement ''pub.ext'' ''codeActions'' True
        (snd (setEnablement ''pub.ext'' ''codeActions'' False demoFresh))))) =
     [DidChangeEnablement ''pub.ext'' ''codeActions'' False,
      DidChangeEnablement ''pub.ext'' ''codeActions'' True]"
proof -
  have f: "getExtensionFeature ''codeActions'' demoFresh =
      Some \<lparr>label = ''Code Actions'', description = []\<rparr>" by code_simp
  have d: "disabledOf ''pub.ext'' ''codeActions'' demoFresh = None" by code_simp
  have t: "trace demoFresh = []" by code_simp
  have s: "saveData (extensionFeaturesState
             (snd (setEnablement ''pub.ext'' ''codeActions'' False demoFresh))) =
      [(''pub.ext'', [(''codeActions'', \<lparr>storedDisabled = Some True, accessCount = 0\<rparr>)])]"
    by code_simp
  from setEnablement_fires_iff_changed [OF f, where extension = "''pub.ext''" and enabled = False]
    f d t s
  show ?thesis by (simp add: Let_def)
qed

text \<open>
  The claim as it was stated promises two events for every pair. A service started on a
  storage in which the pair is disabled fires one event for the two calls, and none for
  two calls with \<open>false\<close>.
\<close>

theorem setEnablement_two_events_counterexample:
  "reachable demoDisabled \<and>
   getExtensionFeature ''codeActions'' demoDisabled =
     Some \<lparr>label = ''Code Actions'', description = []\<rparr> \<and>
   trace demoDisabled = [] \<and>
   isEnabled ''pub.ext'' ''codeActions''
     (snd (setEnablement ''pub.ext'' ''codeActions'' True
        (snd (setEnablement ''pub.ext'' ''codeActions'' False demoDisabled)))) \<and>
   filter enablementEvent
     (trace (snd (setEnablement ''pub.ext'' ''codeActions'' True
        (snd (setEnablement ''pub.ext'' ''codeActions'' False demoDisabled))))) =
     [DidChangeEnablement ''pub.ext'' ''codeActions'' True] \<and>
   filter enablementEvent
     (trace (snd (setEnablement ''pub.ext'' ''codeActions'' False
        (snd (setEnablement ''pub.ext'' ''codeActions'' False demoDisabled))))) = []"
proof -
  have "getExtensionFeature ''codeActions'' demoDisabled =
     Some \<lparr>label = ''Code Actions'', description = []\<rparr>" by code_simp
  moreover have "trace demoDisabled = []" by code_simp
  moreover have "isEnabled ''pub.ext'' ''codeActions''
     (snd (setEnablement ''pub.ext'' ''codeActions'' True
        (snd (setEnablement ''pub.ext'' ''codeActions'' False demoDisabled))))" by code_simp
  moreover have "filter enablementEvent
     (trace (snd (setEnablement ''pub.ext'' ''codeActions'' True
        (snd (setEnablement ''pub.ext'' ''codeActions'' False demoDisabled))))) =
     [DidChangeEnablement ''pub.ext'' ''codeActions'' True]" by code_simp
  moreover have "filter enablementEvent
     (trace (snd (setEnablement ''pub.ext'' ''codeActions'' False
        (snd (setEnablement ''pub.ext'' ''codeActions'' False demoDisabled))))) = []"
    by code_simp
  ultimately show ?thesis using demo_reachable(6) by simp
qed

subsection \<open>The reading operations\<close>

lemma calls_observation:
  "list_all observation xs \<Longrightarrow> snd (calls xs st) = st"
proof (induction xs)
  case Nil
  then show ?case by simp
next
  case (Cons x xs)
  then have "snd (call x st) = st" by (cases x) simp_all
  with Cons show ?case by (simp add: case_prod_beta)
qed

text \<open>
  Claim C10. A sequence of calls of \<^verbatim>\<open>isEnabled\<close> and \<^verbatim>\<open>getAccessData\<close>, on any extensions
  and features, leaves the whole state as it was: no record is created, nothing is stored,
  no event is fired. So for a pair without a record \<^verbatim>\<open>getAccessData\<close> still returns
  \<^verbatim>\<open>undefined\<close> after the sequence, whereas one call of \<^verbatim>\<open>setStatus\<close> on a registered
  feature creates the record: \<^verbatim>\<open>getAccessData\<close> then returns a total of \<open>0\<close> and session data
  with count \<open>0\<close> and last access \<open>0\<close>, though no access was granted.
\<close>

theorem observations_change_nothing:
  assumes "list_all observation xs"
  shows "snd (calls xs st) = st \<and>
    (getExtensionFeatureState extension featureId st = None \<longrightarrow>
       getAccessData extension featureId (snd (calls xs st)) = None \<and>
       (getExtensionFeature featureId st \<noteq> None \<longrightarrow>
          getAccessData extension featureId
            (snd (setStatus extension featureId newStatus (snd (calls xs st)))) =
          Some \<lparr>totalCount = 0,
                current = Some \<lparr>count = 0, lastAccessed = 0, status = newStatus\<rparr>\<rparr>))"
  using calls_observation [OF assms, of st]
  by (auto simp add: getAccessData_def setStatus_def Let_def case_prod_beta
      getAndSet_fst getAndSet_lookup assign_lookup split: option.splits)

theorem observations_change_nothing_witness:
  "list_all observation
     [IsEnabled ''pub.ext'' ''codeActions'', GetAccessData ''pub.ext'' ''codeActions'',
      IsEnabled ''pub.ext'' ''codeActions''] \<and>
   getExtensionFeatureState ''pub.ext'' ''codeActions'' demoFresh = None \<and>
   getExtensionFeature ''codeActions'' demoFresh \<noteq> None \<and>
   snd (calls [IsEnabled ''pub.ext'' ''codeActions'', GetAccessData ''pub.ext'' ''codeActions'',
               IsEnabled ''pub.ext'' ''codeActions''] demoFresh) = demoFresh \<and>
   getAccessData ''pub.ext'' ''codeActions''
     (snd (calls [IsEnabled ''pub.ext'' ''codeActions'',
                  GetAccessData ''pub.ext'' ''codeActions'',
                  IsEnabled ''pub.ext'' ''codeActions''] demoFresh)) = None \<and>
   getAccessData ''pub.ext'' ''codeActions''
     (snd (setStatus ''pub.ext'' ''codeActions'' None
        (snd (calls [IsEnabled ''pub.ext'' ''codeActions'',
                     GetAccessData ''pub.ext'' ''codeActions'',
                     IsEnabled ''pub.ext'' ''codeActions''] demoFresh)))) =
     Some \<lparr>totalCount = 0, current = Some \<lparr>count = 0, lastAccessed = 0, status = None\<rparr>\<rparr>"
proof -
  have o: "list_all observation
     [IsEnabled ''pub.ext'' ''codeActions'', GetAccessData ''pub.ext'' ''codeActions'',
      IsEnabled ''pub.ext'' ''codeActions'']" by simp
  have n: "getExtensionFeatureState ''pub.ext'' ''codeActions'' demoFresh = None" by code_simp
  have f: "getExtensionFeature ''codeActions'' demoFresh \<noteq> None" by code_simp
  from observations_change_nothing [OF o, where st = demoFresh and extension = "''pub.ext''"
      and featureId = "''codeActions''" and newStatus = None] o n f
  show ?thesis by simp
qed

subsection \<open>What \<^verbatim>\<open>saveState\<close> stores\<close>

lemma map_of_map_value:
  "map_of (map (\<lambda>(k, v). (k, g v)) xs) k = map_option g (map_of xs k)"
  by (induction xs) auto

lemma map_of_filter_key:
  "map_of (filter (\<lambda>(k, v). P k) xs) k = (if P k then map_of xs k else None)"
  by (induction xs) auto

lemma stored_saveData:
  "storedFeatureOf e f (Some (Json (saveData (extensionFeaturesState st)))) =
     (if ownKey e \<and> ownKey f then map_option saveFeature (getExtensionFeatureState e f st)
      else None)"
  by (auto simp add: storedFeatureOf_def saveData_def getExtensionFeatureState_def
      map_of_map_value map_of_filter_key split: option.splits)

lemma stored_saveState:
  "storedFeatureOf e f (storage (saveState st)) =
     (if ownKey e \<and> ownKey f then map_option saveFeature (getExtensionFeatureState e f st)
      else None)"
  by (simp add: stored_saveData)

subsection \<open>\<^verbatim>\<open>getAccess\<close> on an enabled pair\<close>

lemma recordAccess_fields [simp]:
  "fst (recordAccess r now st) = Inr True"
  "registry (snd (recordAccess r now st)) = registry st"
  "length (retired (snd (recordAccess r now st))) = length (retired st)"
  "getExtensionFeature f (snd (recordAccess r now st)) = getExtensionFeature f st"
  "storage (snd (recordAccess r now st)) =
     Some (Json (saveData (extensionFeaturesState (snd (recordAccess r now st)))))"
  by (simp_all add: recordAccess_def Let_def)

lemma recordAccess_effect:
  assumes "suspendedMap r = length (retired st)"
    and "suspendedExtension r = e" and "suspendedFeatureId r = f"
    and "getExtensionFeatureState e f st = Some s"
  shows "getExtensionFeatureState e' f' (snd (recordAccess r now st)) =
      (if e' = e \<and> f' = f then
         Some (s\<lparr>accessData := \<lparr>totalCount = totalCount (accessData s) + 1,
                  current = Some \<lparr>count = (case current (accessData s) of
                                      None \<Rightarrow> 1
                                    | Some c \<Rightarrow> if count c \<noteq> 0 then count c + 1 else 1),
                           lastAccessed = now,
                           status = (case current (accessData s) of
                                       None \<Rightarrow> None
                                     | Some c \<Rightarrow> status c)\<rparr>\<rparr>\<rparr>)
       else getExtensionFeatureState e' f' st)"
    and "trace (snd (recordAccess r now st)) = trace st @
          [Store (Json (saveData (extensionFeaturesState (snd (recordAccess r now st))))),
           DidChangeAccessData e f
             (map_option accessData
                (getExtensionFeatureState e f (snd (recordAccess r now st))))]"
    and "retired (snd (recordAccess r now st)) = retired st"
  using assms
  by (simp_all add: recordAccess_def Let_def through_live assign_lookup)

lemma getAccess_enabled:
  assumes "getExtensionFeature f st = Some feature" "disabledOf e f st = Some False"
  shows "getAccess e f now st =
    (Settled (Inr True),
     snd (recordAccess \<lparr>suspendedExtension = e, suspendedFeatureId = f,
                        suspendedMap = length (retired st)\<rparr> now st))"
  using assms
  by (auto simp add: getAccess_def disabledOf_def getAndSet_existing Let_def case_prod_beta
      split: option.splits)

lemma enabled_step:
  assumes "getExtensionFeature f st = Some feature" "disabledOf e f st = Some False"
  shows "fst (getAccess e f now st) = Settled (Inr True)"
    and "getExtensionFeature f (snd (getAccess e f now st)) = Some feature"
    and "disabledOf e f (snd (getAccess e f now st)) = Some False"
    and "totalCountOf e f (snd (getAccess e f now st)) = totalCountOf e f st + 1"
    and "0 \<le> countOf e f st \<Longrightarrow>
           countOf e f (snd (getAccess e f now st)) = countOf e f st + 1"
    and "statusOf e f (snd (getAccess e f now st)) = statusOf e f st"
    and "map_option lastAccessed (currentOf e f (snd (getAccess e f now st))) = Some now"
    and "trace (snd (getAccess e f now st)) = trace st @
          [Store (Json (saveData (extensionFeaturesState (snd (getAccess e f now st))))),
           DidChangeAccessData e f (getAccessData e f (snd (getAccess e f now st)))]"
    and "storage (snd (getAccess e f now st)) =
          Some (Json (saveData (extensionFeaturesState (snd (getAccess e f now st)))))"
    and "e' \<noteq> e \<or> f' \<noteq> f \<Longrightarrow>
           getExtensionFeatureState e' f' (snd (getAccess e f now st)) =
             getExtensionFeatureState e' f' st"
    and "retired (snd (getAccess e f now st)) = retired st"
proof -
  let ?r = "\<lparr>suspendedExtension = e, suspendedFeatureId = f,
             suspendedMap = length (retired st)\<rparr>"
  from assms(2) obtain s where s: "getExtensionFeatureState e f st = Some s"
    by (auto simp add: disabledOf_def split: option.splits)
  note ga = getAccess_enabled [OF assms, where now = now]
  have live: "suspendedMap ?r = length (retired st)" "suspendedExtension ?r = e"
    "suspendedFeatureId ?r = f" by simp_all
  note ra = recordAccess_effect [OF live s, where now = now]
  show "fst (getAccess e f now st) = Settled (Inr True)" by (simp add: ga)
  show "getExtensionFeature f (snd (getAccess e f now st)) = Some feature"
    using assms(1) by (simp add: ga)
  show "disabledOf e f (snd (getAccess e f now st)) = Some False"
    using assms(2) s by (simp add: ga ra(1) disabledOf_def)
  show "totalCountOf e f (snd (getAccess e f now st)) = totalCountOf e f st + 1"
    using s by (simp add: ga ra(1) totalCountOf_def)
  show "countOf e f (snd (getAccess e f now st)) = countOf e f st + 1"
    if "0 \<le> countOf e f st"
    using s that by (simp add: ga ra(1) countOf_def currentOf_def split: option.splits)
  show "statusOf e f (snd (getAccess e f now st)) = statusOf e f st"
    using s by (simp add: ga ra(1) statusOf_def currentOf_def split: option.splits)
  show "map_option lastAccessed (currentOf e f (snd (getAccess e f now st))) = Some now"
    using s by (simp add: ga ra(1) currentOf_def)
  have reg: "getExtensionFeature f (snd (recordAccess ?r now st)) = Some feature"
    using assms(1) by simp
  show "trace (snd (getAccess e f now st)) = trace st @
          [Store (Json (saveData (extensionFeaturesState (snd (getAccess e f now st))))),
           DidChangeAccessData e f (getAccessData e f (snd (getAccess e f now st)))]"
    using reg by (simp add: ga ra(2) getAccessData_def)
  show "storage (snd (getAccess e f now st)) =
          Some (Json (saveData (extensionFeaturesState (snd (getAccess e f now st)))))"
    by (simp add: ga)
  show "getExtensionFeatureState e' f' (snd (getAccess e f now st)) =
      getExtensionFeatureState e' f' st" if "e' \<noteq> e \<or> f' \<noteq> f"
    using that by (auto simp add: ga ra(1))
  show "retired (snd (getAccess e f now st)) = retired st"
    by (simp add: ga ra(3))
qed

lemma accessCalls_simps:
  "accessCalls e f [] = []"
  "accessCalls e f (t # ts) = GetAccess e f t # accessCalls e f ts"
  "length (accessCalls e f ts) = length ts"
  by (simp_all add: accessCalls_def)

lemma enabled_calls:
  assumes "getExtensionFeature f st = Some feature" "disabledOf e f st = Some False"
  shows "fst (calls (accessCalls e f ts) st) = replicate (length ts) (ReturnedBool True) \<and>
    disabledOf e f (snd (calls (accessCalls e f ts) st)) = Some False \<and>
    totalCountOf e f (snd (calls (accessCalls e f ts) st)) =
      totalCountOf e f st + int (length ts) \<and>
    (0 \<le> countOf e f st \<longrightarrow>
       countOf e f (snd (calls (accessCalls e f ts) st)) = countOf e f st + int (length ts)) \<and>
    statusOf e f (snd (calls (accessCalls e f ts) st)) = statusOf e f st \<and>
    (ts \<noteq> [] \<longrightarrow>
       map_option lastAccessed (currentOf e f (snd (calls (accessCalls e f ts) st))) =
         Some (last ts) \<and>
       storage (snd (calls (accessCalls e f ts) st)) =
         Some (Json (saveData (extensionFeaturesState
                                 (snd (calls (accessCalls e f ts) st)))))) \<and>
    trace (snd (calls (accessCalls e f ts) st)) = trace st @
      concat (map (\<lambda>k. [Store (Json (saveData (extensionFeaturesState
                             (snd (calls (take (Suc k) (accessCalls e f ts)) st))))),
                       DidChangeAccessData e f (getAccessData e f
                             (snd (calls (take (Suc k) (accessCalls e f ts)) st)))])
                [0..<length ts])"
  using assms
proof (induction ts arbitrary: st)
  case Nil
  then show ?case by (simp add: accessCalls_simps)
next
  case (Cons t ts)
  define s1 where "s1 = snd (getAccess e f t st)"
  note step = enabled_step [OF Cons.prems, where now = t, folded s1_def]
  note ih = Cons.IH [OF step(2) step(3)]
  have hd: "fst (calls (accessCalls e f (t # ts)) st) =
      ReturnedBool True # fst (calls (accessCalls e f ts) s1)"
    by (simp add: accessCalls_simps calls_Cons call_fst_getAccess call_snd step(1) s1_def
        del: calls.simps call.simps)
  have tl: "snd (calls (accessCalls e f (t # ts)) st) = snd (calls (accessCalls e f ts) s1)"
    by (simp add: accessCalls_simps calls_Cons call_snd s1_def del: calls.simps call.simps)
  have prefix: "snd (calls (take (Suc k) (accessCalls e f (t # ts))) st) =
      snd (calls (take k (accessCalls e f ts)) s1)" for k
    by (simp add: accessCalls_simps calls_Cons call_snd s1_def del: calls.simps call.simps)
  have first: "snd (calls [] s1) = s1"
    by simp
  have c1: "fst (calls (accessCalls e f (t # ts)) st) =
      replicate (length (t # ts)) (ReturnedBool True)"
    using ih by (simp add: hd)
  have c2: "disabledOf e f (snd (calls (accessCalls e f (t # ts)) st)) = Some False"
    using ih by (simp add: tl)
  have c3: "totalCountOf e f (snd (calls (accessCalls e f (t # ts)) st)) =
      totalCountOf e f st + int (length (t # ts))"
    using ih step(4) by (simp add: tl)
  have c4: "countOf e f (snd (calls (accessCalls e f (t # ts)) st)) =
      countOf e f st + int (length (t # ts))" if "0 \<le> countOf e f st"
    using ih step(5) [OF that] that by (simp add: tl)
  have c5: "statusOf e f (snd (calls (accessCalls e f (t # ts)) st)) = statusOf e f st"
    using ih step(6) by (simp add: tl)
  have c6: "map_option lastAccessed
      (currentOf e f (snd (calls (accessCalls e f (t # ts)) st))) =
      Some (last (t # ts))"
  proof (cases "ts = []")
    case True
    show ?thesis unfolding tl using True step(7) by (simp add: accessCalls_simps)
  next
    case False
    show ?thesis unfolding tl using False ih by simp
  qed
  have c7: "storage (snd (calls (accessCalls e f (t # ts)) st)) =
      Some (Json (saveData (extensionFeaturesState
                              (snd (calls (accessCalls e f (t # ts)) st)))))"
  proof (cases "ts = []")
    case True
    show ?thesis unfolding tl using True step(9) by (simp add: accessCalls_simps)
  next
    case False
    show ?thesis unfolding tl using False ih by simp
  qed
  have c8: "trace (snd (calls (accessCalls e f (t # ts)) st)) = trace st @
      concat (map (\<lambda>k. [Store (Json (saveData (extensionFeaturesState
                             (snd (calls (take (Suc k) (accessCalls e f (t # ts))) st))))),
                       DidChangeAccessData e f (getAccessData e f
                             (snd (calls (take (Suc k) (accessCalls e f (t # ts))) st)))])
                [0..<length (t # ts)])"
    using ih step(8)
    by (simp add: tl prefix first map_upt_Suc accessCalls_simps(3)
        del: upt_Suc calls.simps call.simps take_Suc_Cons)
  from c1 c2 c3 c4 c5 c6 c7 c8 show ?case by blast
qed

lemma enabled_calls_frame:
  assumes "getExtensionFeature f st = Some feature" "disabledOf e f st = Some False"
  shows "registry (snd (calls (accessCalls e f ts) st)) = registry st \<and>
    retired (snd (calls (accessCalls e f ts) st)) = retired st \<and>
    (e' \<noteq> e \<or> f' \<noteq> f \<longrightarrow>
       getExtensionFeatureState e' f' (snd (calls (accessCalls e f ts) st)) =
         getExtensionFeatureState e' f' st)"
  using assms
proof (induction ts arbitrary: st)
  case Nil
  then show ?case by (simp add: accessCalls_simps)
next
  case (Cons t ts)
  define s1 where "s1 = snd (getAccess e f t st)"
  note step = enabled_step [OF Cons.prems, where now = t, folded s1_def]
  note ih = Cons.IH [OF step(2) step(3)]
  have tl: "snd (calls (accessCalls e f (t # ts)) st) = snd (calls (accessCalls e f ts) s1)"
    by (simp add: accessCalls_simps calls_Cons call_snd s1_def del: calls.simps call.simps)
  have reg: "registry s1 = registry st"
    unfolding s1_def getAccess_enabled [OF Cons.prems] by simp
  from ih step(10) [of e' f'] step(11) reg show ?case
    unfolding tl by auto
qed

lemma enabled_calls_take:
  "take k (accessCalls e f ts) = accessCalls e f (take k ts)"
  by (simp add: accessCalls_def take_map)

lemma enabled_prefix:
  assumes "getExtensionFeature f st = Some feature" "disabledOf e f st = Some False"
    and "k < length ts"
  shows "totalCountOf e f (snd (calls (take (Suc k) (accessCalls e f ts)) st)) =
      totalCountOf e f st + int (Suc k)"
    and "map_option lastAccessed
           (currentOf e f (snd (calls (take (Suc k) (accessCalls e f ts)) st))) =
         Some (ts ! k)"
    and "storage (snd (calls (take (Suc k) (accessCalls e f ts)) st)) =
      Some (Json (saveData (extensionFeaturesState
                              (snd (calls (take (Suc k) (accessCalls e f ts)) st)))))"
    and "storedFeatureOf e f
           (storage (snd (calls (take (Suc k) (accessCalls e f ts)) st))) =
         (if ownKey e \<and> ownKey f
          then Some \<lparr>storedDisabled = Some False,
                     accessCount = totalCountOf e f st + int (Suc k)\<rparr>
          else None)"
    and "getAccessData e f (snd (calls (take (Suc k) (accessCalls e f ts)) st)) =
         Some \<lparr>totalCount = totalCountOf e f st + int (Suc k),
               current = currentOf e f
                           (snd (calls (take (Suc k) (accessCalls e f ts)) st))\<rparr>"
proof -
  let ?a = "snd (calls (take (Suc k) (accessCalls e f ts)) st)"
  have a: "?a = snd (calls (accessCalls e f (take (Suc k) ts)) st)"
    by (simp only: enabled_calls_take)
  from assms(3) have n: "take (Suc k) ts \<noteq> []" and l: "length (take (Suc k) ts) = Suc k"
    and la: "last (take (Suc k) ts) = ts ! k"
    by (auto simp add: take_Suc_conv_app_nth)
  note all = enabled_calls [OF assms(1,2), of "take (Suc k) ts", folded a, unfolded l la]
  note frame = enabled_calls_frame [OF assms(1,2), of "take (Suc k) ts", folded a]
  from all show total: "totalCountOf e f ?a = totalCountOf e f st + int (Suc k)"
    by blast
  from all n show "map_option lastAccessed (currentOf e f ?a) = Some (ts ! k)"
    by blast
  from all n show stored: "storage ?a = Some (Json (saveData (extensionFeaturesState ?a)))"
    by blast
  from all have d: "disabledOf e f ?a = Some False" by blast
  then obtain s where s: "getExtensionFeatureState e f ?a = Some s"
    and ds: "disabled s = Some False"
    by (auto simp add: disabledOf_def split: option.splits)
  from s total have ts: "totalCount (accessData s) = totalCountOf e f st + int (Suc k)"
    by (simp add: totalCountOf_def)
  show "storedFeatureOf e f (storage ?a) =
         (if ownKey e \<and> ownKey f
          then Some \<lparr>storedDisabled = Some False,
                     accessCount = totalCountOf e f st + int (Suc k)\<rparr>
          else None)"
    unfolding stored stored_saveData using s ds ts by (simp add: saveFeature_def)
  from frame assms(1) have "getExtensionFeature f ?a = Some feature"
    by (simp add: getExtensionFeature_def)
  with s ts show "getAccessData e f ?a =
         Some \<lparr>totalCount = totalCountOf e f st + int (Suc k),
               current = currentOf e f ?a\<rparr>"
    by (simp add: getAccessData_def currentOf_def)
qed

text \<open>
  Claim C3. On a registered feature whose pair is enabled (\<^verbatim>\<open>disabled === false\<close>), call
  \<^verbatim>\<open>getAccess\<close> once for each element of a non-empty list \<open>ts\<close> of times, with nothing in
  between. Every call returns true at once, without asking the dialog. The lifetime total
  grows by the number of calls; so does the session count if it was not negative, and a
  pair without session data ends with the count equal to the number of calls, the time of
  the last call and no status. The time of the last access is that of the last call, an
  existing status and the decision are kept, and the records of the other pairs are as
  they were. Each call persists: after the call number \<open>k + 1\<close> the total is the one before
  plus \<open>k + 1\<close>, the time of the last access is the time of that call, and the value in the
  storage is the dictionary written by that call, in which the entry of the pair holds
  \<^verbatim>\<open>disabled: false\<close> and the new total as \<^verbatim>\<open>accessCount\<close> (no entry if the extension id or
  the feature id is \<^verbatim>\<open>__proto__\<close>); at the end the entries of the other pairs hold the
  decision and the total of their records. Each call has appended to the trace the write
  of that dictionary, followed by one access-data event with the access data after that
  call, which hold the new total.
\<close>

theorem repeated_access_counts:
  assumes "getExtensionFeature featureId st = Some feature"
    and "disabledOf extension featureId st = Some False"
    and "k < length ts"
  shows "let xs = accessCalls extension featureId ts;
             after = (\<lambda>j. snd (calls (take j xs) st));
             st' = snd (calls xs st)
         in fst (calls xs st) = replicate (length ts) (ReturnedBool True) \<and>
            totalCountOf extension featureId st' =
              totalCountOf extension featureId st + int (length ts) \<and>
            (0 \<le> countOf extension featureId st \<longrightarrow>
               countOf extension featureId st' =
                 countOf extension featureId st + int (length ts)) \<and>
            (currentOf extension featureId st = None \<longrightarrow>
               currentOf extension featureId st' =
                 Some \<lparr>count = int (length ts), lastAccessed = last ts, status = None\<rparr>) \<and>
            map_option lastAccessed (currentOf extension featureId st') = Some (last ts) \<and>
            statusOf extension featureId st' = statusOf extension featureId st \<and>
            disabledOf extension featureId st' = Some False \<and>
            (\<forall>e f. e \<noteq> extension \<or> f \<noteq> featureId \<longrightarrow>
               getExtensionFeatureState e f st' = getExtensionFeatureState e f st) \<and>
            totalCountOf extension featureId (after (Suc k)) =
              totalCountOf extension featureId st + int k + 1 \<and>
            map_option lastAccessed (currentOf extension featureId (after (Suc k))) =
              Some (ts ! k) \<and>
            storage (after (Suc k)) =
              Some (Json (saveData (extensionFeaturesState (after (Suc k))))) \<and>
            storedFeatureOf extension featureId (storage (after (Suc k))) =
              (if extension = ''__proto__'' \<or> featureId = ''__proto__'' then None
               else Some \<lparr>storedDisabled = Some False,
                          accessCount = totalCountOf extension featureId st + int k + 1\<rparr>) \<and>
            getAccessData extension featureId (after (Suc k)) =
              Some \<lparr>totalCount = totalCountOf extension featureId st + int k + 1,
                    current = currentOf extension featureId (after (Suc k))\<rparr> \<and>
            (\<forall>e f. e \<noteq> extension \<or> f \<noteq> featureId \<longrightarrow>
               storedFeatureOf e f (storage st') =
                 (if e = ''__proto__'' \<or> f = ''__proto__'' then None
                  else map_option
                         (\<lambda>s. \<lparr>storedDisabled = disabled s,
                                accessCount = totalCount (accessData s)\<rparr>)
                         (getExtensionFeatureState e f st))) \<and>
            trace st' = trace st @
              concat (map (\<lambda>j. [Store (Json (saveData
                                          (extensionFeaturesState (after (Suc j))))),
                               DidChangeAccessData extension featureId
                                 (getAccessData extension featureId (after (Suc j)))])
                        [0..<length ts])"
proof -
  let ?xs = "accessCalls extension featureId ts"
  let ?st' = "snd (calls ?xs st)"
  let ?a = "snd (calls (take (Suc k) ?xs) st)"
  from assms(3) have ne: "ts \<noteq> []" by auto
  note all = enabled_calls [OF assms(1,2), of ts]
  note frame = enabled_calls_frame [OF assms(1,2), of ts]
  note pre = enabled_prefix [OF assms]
  have c1: "fst (calls ?xs st) = replicate (length ts) (ReturnedBool True)"
    using all by blast
  have c2: "totalCountOf extension featureId ?st' =
      totalCountOf extension featureId st + int (length ts)"
    using all by blast
  have c3: "0 \<le> countOf extension featureId st \<longrightarrow>
      countOf extension featureId ?st' = countOf extension featureId st + int (length ts)"
    using all by blast
  have c5: "map_option lastAccessed (currentOf extension featureId ?st') = Some (last ts)"
    using all ne by blast
  have c6: "statusOf extension featureId ?st' = statusOf extension featureId st"
    using all by blast
  have c7: "disabledOf extension featureId ?st' = Some False"
    using all by blast
  have c4: "currentOf extension featureId st = None \<longrightarrow>
      currentOf extension featureId ?st' =
        Some \<lparr>count = int (length ts), lastAccessed = last ts, status = None\<rparr>"
  proof
    assume none: "currentOf extension featureId st = None"
    then have c0: "countOf extension featureId st = 0"
      and s0: "statusOf extension featureId st = None"
      by (simp_all add: countOf_def statusOf_def)
    from c5 obtain cur where cur: "currentOf extension featureId ?st' = Some cur"
      and la: "lastAccessed cur = last ts" by auto
    from c3 c0 have "countOf extension featureId ?st' = int (length ts)" by simp
    with cur have c: "count cur = int (length ts)" by (simp add: countOf_def)
    from c6 s0 have "statusOf extension featureId ?st' = None" by simp
    with cur have s: "status cur = None" by (simp add: statusOf_def)
    from c s la have
      "cur = \<lparr>count = int (length ts), lastAccessed = last ts, status = None\<rparr>"
      by simp
    with cur show "currentOf extension featureId ?st' =
        Some \<lparr>count = int (length ts), lastAccessed = last ts, status = None\<rparr>" by simp
  qed
  have c8: "\<forall>e f. e \<noteq> extension \<or> f \<noteq> featureId \<longrightarrow>
      getExtensionFeatureState e f ?st' = getExtensionFeatureState e f st"
    using enabled_calls_frame [OF assms(1,2), of ts] by blast
  have c9: "totalCountOf extension featureId ?a =
      totalCountOf extension featureId st + int k + 1"
    using pre(1) by simp
  have c10: "map_option lastAccessed (currentOf extension featureId ?a) = Some (ts ! k)"
    using pre(2) .
  have c11: "storage ?a = Some (Json (saveData (extensionFeaturesState ?a)))"
    using pre(3) .
  have c12: "storedFeatureOf extension featureId (storage ?a) =
      (if extension = ''__proto__'' \<or> featureId = ''__proto__'' then None
       else Some \<lparr>storedDisabled = Some False,
                  accessCount = totalCountOf extension featureId st + int k + 1\<rparr>)"
    using pre(4) by (simp add: ownKey_def)
  have c13: "getAccessData extension featureId ?a =
      Some \<lparr>totalCount = totalCountOf extension featureId st + int k + 1,
            current = currentOf extension featureId ?a\<rparr>"
    using pre(5) by simp
  have st: "storage ?st' = Some (Json (saveData (extensionFeaturesState ?st')))"
    using all ne by blast
  have c14: "\<forall>e f. e \<noteq> extension \<or> f \<noteq> featureId \<longrightarrow>
      storedFeatureOf e f (storage ?st') =
        (if e = ''__proto__'' \<or> f = ''__proto__'' then None
         else map_option
                (\<lambda>s. \<lparr>storedDisabled = disabled s, accessCount = totalCount (accessData s)\<rparr>)
                (getExtensionFeatureState e f st))"
  proof (intro allI impI)
    fix e f
    assume other: "e \<noteq> extension \<or> f \<noteq> featureId"
    with c8 have same: "getExtensionFeatureState e f ?st' = getExtensionFeatureState e f st"
      by blast
    show "storedFeatureOf e f (storage ?st') =
        (if e = ''__proto__'' \<or> f = ''__proto__'' then None
         else map_option
                (\<lambda>s. \<lparr>storedDisabled = disabled s, accessCount = totalCount (accessData s)\<rparr>)
                (getExtensionFeatureState e f st))"
      unfolding st stored_saveData same
      by (cases "getExtensionFeatureState e f st") (simp_all add: ownKey_def saveFeature_def)
  qed
  have c15: "trace ?st' = trace st @
      concat (map (\<lambda>j. [Store (Json (saveData (extensionFeaturesState
                                          (snd (calls (take (Suc j) ?xs) st))))),
                       DidChangeAccessData extension featureId
                         (getAccessData extension featureId
                            (snd (calls (take (Suc j) ?xs) st)))])
                [0..<length ts])"
    using all by blast
  from c1 c2 c3 c4 c5 c6 c7 c8 c9 c10 c11 c12 c13 c14 c15 show ?thesis
    unfolding Let_def by (intro conjI)
qed

theorem repeated_access_counts_witness:
  "getExtensionFeature ''codeActions'' demoEnabled =
     Some \<lparr>label = ''Code Actions'', description = []\<rparr> \<and>
   disabledOf ''pub.ext'' ''codeActions'' demoEnabled = Some False \<and>
   (1 :: nat) < length [10, 20, 30 :: int] \<and>
   currentOf ''pub.ext'' ''codeActions'' demoEnabled = None \<and>
   totalCountOf ''pub.ext'' ''codeActions'' demoEnabled = 0 \<and>
   fst (calls (accessCalls ''pub.ext'' ''codeActions'' [10, 20, 30]) demoEnabled) =
     [ReturnedBool True, ReturnedBool True, ReturnedBool True] \<and>
   totalCountOf ''pub.ext'' ''codeActions''
     (snd (calls (accessCalls ''pub.ext'' ''codeActions'' [10, 20, 30]) demoEnabled)) = 3 \<and>
   currentOf ''pub.ext'' ''codeActions''
     (snd (calls (accessCalls ''pub.ext'' ''codeActions'' [10, 20, 30]) demoEnabled)) =
     Some \<lparr>count = 3, lastAccessed = 30, status = None\<rparr> \<and>
   storedFeatureOf ''pub.ext'' ''codeActions''
     (storage (snd (calls (take 2 (accessCalls ''pub.ext'' ''codeActions'' [10, 20, 30]))
                      demoEnabled))) =
     Some \<lparr>storedDisabled = Some False, accessCount = 2\<rparr> \<and>
   getAccessData ''pub.ext'' ''codeActions''
     (snd (calls (take 2 (accessCalls ''pub.ext'' ''codeActions'' [10, 20, 30]))
             demoEnabled)) =
     Some \<lparr>totalCount = 2,
           current = Some \<lparr>count = 2, lastAccessed = 20, status = None\<rparr>\<rparr> \<and>
   storage (snd (calls (accessCalls ''pub.ext'' ''codeActions'' [10, 20, 30]) demoEnabled)) =
     Some (Json [(''pub.ext'',
                  [(''codeActions'', \<lparr>storedDisabled = Some False, accessCount = 3\<rparr>)])]) \<and>
   trace (snd (calls (accessCalls ''pub.ext'' ''codeActions'' [10, 20, 30]) demoEnabled)) =
     [DidChangeEnablement ''pub.ext'' ''codeActions'' True,
      Store (Json [(''pub.ext'',
                    [(''codeActions'', \<lparr>storedDisabled = Some False, accessCount = 0\<rparr>)])]),
      Store (Json [(''pub.ext'',
                    [(''codeActions'', \<lparr>storedDisabled = Some False, accessCount = 1\<rparr>)])]),
      DidChangeAccessData ''pub.ext'' ''codeActions''
        (Some \<lparr>totalCount = 1,
               current = Some \<lparr>count = 1, lastAccessed = 10, status = None\<rparr>\<rparr>),
      Store (Json [(''pub.ext'',
                    [(''codeActions'', \<lparr>storedDisabled = Some False, accessCount = 2\<rparr>)])]),
      DidChangeAccessData ''pub.ext'' ''codeActions''
        (Some \<lparr>totalCount = 2,
               current = Some \<lparr>count = 2, lastAccessed = 20, status = None\<rparr>\<rparr>),
      Store (Json [(''pub.ext'',
                    [(''codeActions'', \<lparr>storedDisabled = Some False, accessCount = 3\<rparr>)])]),
      DidChangeAccessData ''pub.ext'' ''codeActions''
        (Some \<lparr>totalCount = 3,
               current = Some \<lparr>count = 3, lastAccessed = 30, status = None\<rparr>\<rparr>)]"
proof -
  have f: "getExtensionFeature ''codeActions'' demoEnabled =
      Some \<lparr>label = ''Code Actions'', description = []\<rparr>" by code_simp
  have d: "disabledOf ''pub.ext'' ''codeActions'' demoEnabled = Some False" by code_simp
  have n: "(1 :: nat) < length [10, 20, 30 :: int]" by simp
  have c: "currentOf ''pub.ext'' ''codeActions'' demoEnabled = None" by code_simp
  have t: "totalCountOf ''pub.ext'' ''codeActions'' demoEnabled = 0" by code_simp
  have cur: "currentOf ''pub.ext'' ''codeActions''
      (snd (calls (take 2 (accessCalls ''pub.ext'' ''codeActions'' [10, 20, 30]))
              demoEnabled)) = Some \<lparr>count = 2, lastAccessed = 20, status = None\<rparr>"
    by code_simp
  have stored: "storage (snd (calls (accessCalls ''pub.ext'' ''codeActions'' [10, 20, 30])
                                demoEnabled)) =
      Some (Json [(''pub.ext'',
                   [(''codeActions'', \<lparr>storedDisabled = Some False, accessCount = 3\<rparr>)])])"
    by code_simp
  have written: "trace (snd (calls (accessCalls ''pub.ext'' ''codeActions'' [10, 20, 30])
                                 demoEnabled)) =
     [DidChangeEnablement ''pub.ext'' ''codeActions'' True,
      Store (Json [(''pub.ext'',
                    [(''codeActions'', \<lparr>storedDisabled = Some False, accessCount = 0\<rparr>)])]),
      Store (Json [(''pub.ext'',
                    [(''codeActions'', \<lparr>storedDisabled = Some False, accessCount = 1\<rparr>)])]),
      DidChangeAccessData ''pub.ext'' ''codeActions''
        (Some \<lparr>totalCount = 1,
               current = Some \<lparr>count = 1, lastAccessed = 10, status = None\<rparr>\<rparr>),
      Store (Json [(''pub.ext'',
                    [(''codeActions'', \<lparr>storedDisabled = Some False, accessCount = 2\<rparr>)])]),
      DidChangeAccessData ''pub.ext'' ''codeActions''
        (Some \<lparr>totalCount = 2,
               current = Some \<lparr>count = 2, lastAccessed = 20, status = None\<rparr>\<rparr>),
      Store (Json [(''pub.ext'',
                    [(''codeActions'', \<lparr>storedDisabled = Some False, accessCount = 3\<rparr>)])]),
      DidChangeAccessData ''pub.ext'' ''codeActions''
        (Some \<lparr>totalCount = 3,
               current = Some \<lparr>count = 3, lastAccessed = 30, status = None\<rparr>\<rparr>)]"
    by code_simp
  have two: "Suc 1 = 2" by simp
  note counts = repeated_access_counts [OF f d n, unfolded Let_def two]
  have r1: "fst (calls (accessCalls ''pub.ext'' ''codeActions'' [10, 20, 30]) demoEnabled) =
      [ReturnedBool True, ReturnedBool True, ReturnedBool True]"
    using counts by (elim conjE) simp
  have r2: "totalCountOf ''pub.ext'' ''codeActions''
      (snd (calls (accessCalls ''pub.ext'' ''codeActions'' [10, 20, 30]) demoEnabled)) = 3"
    using counts t by (elim conjE) simp
  have r3: "currentOf ''pub.ext'' ''codeActions''
      (snd (calls (accessCalls ''pub.ext'' ''codeActions'' [10, 20, 30]) demoEnabled)) =
      Some \<lparr>count = 3, lastAccessed = 30, status = None\<rparr>"
    using counts c by (elim conjE) simp
  have r4: "storedFeatureOf ''pub.ext'' ''codeActions''
      (storage (snd (calls (take 2 (accessCalls ''pub.ext'' ''codeActions'' [10, 20, 30]))
                       demoEnabled))) =
      Some \<lparr>storedDisabled = Some False, accessCount = 2\<rparr>"
    using counts t by (elim conjE) simp
  have r5: "getAccessData ''pub.ext'' ''codeActions''
      (snd (calls (take 2 (accessCalls ''pub.ext'' ''codeActions'' [10, 20, 30]))
              demoEnabled)) =
      Some \<lparr>totalCount = 2,
            current = Some \<lparr>count = 2, lastAccessed = 20, status = None\<rparr>\<rparr>"
    using counts t cur by (elim conjE) simp
  from f d n c t r1 r2 r3 r4 r5 stored written show ?thesis
    by (intro conjI)
qed

subsection \<open>Reachable states are consistent\<close>

lemma lookup_loadState:
  "getExtensionFeatureState e f (st\<lparr>extensionFeaturesState := loadState raw\<rparr>) =
     map_option loadFeature (storedFeatureOf e f raw)"
  by (auto simp add: getExtensionFeatureState_def loadState_def storedFeatureOf_def
      map_of_map_value split: option.splits storedValue.splits)

lemma lookup_construct:
  "getExtensionFeatureState e f (construct reg raw) =
     map_option loadFeature (storedFeatureOf e f raw)"
  by (auto simp add: construct_def getExtensionFeatureState_def loadState_def
      storedFeatureOf_def map_of_map_value split: option.splits storedValue.splits)

lemma load_save_unused:
  "unusedWhileUndecided s \<Longrightarrow> unusedWhileUndecided (loadFeature (saveFeature s))"
  by (simp add: unusedWhileUndecided_def loadFeature_def saveFeature_def)

lemma consistent_construct:
  assumes "\<forall>e f x. storedFeatureOf e f raw = Some x \<longrightarrow> unusedWhileUndecided (loadFeature x)"
  shows "consistent (construct reg raw)"
  unfolding consistent_def lookup_construct using assms
  by (auto simp add: construct_def)

lemma consistent_getAndSet:
  assumes "consistent st"
  shows "consistent (snd (getAndSetIfNotExistsExtensionFeatureState e f st))"
proof -
  have "unusedWhileUndecided
      \<lparr>disabled = None, accessData = \<lparr>totalCount = 0, current = None\<rparr>\<rparr>"
    by (simp add: unusedWhileUndecided_def)
  with assms show ?thesis
    unfolding consistent_def
    by (auto simp add: getAndSet_lookup getAndSet_fst split: option.splits if_splits)
qed

lemma consistent_assign:
  assumes "consistent st"
    and "\<And>s. getExtensionFeatureState e f st = Some s \<Longrightarrow> unusedWhileUndecided (g s)"
  shows "consistent (assignFeatureState e f g st)"
  using assms unfolding consistent_def
  by (auto simp add: assign_lookup split: if_splits)

lemma consistent_fire:
  "consistent st \<Longrightarrow> consistent (fire x st)"
  unfolding consistent_def by simp

lemma consistent_saveState:
  "consistent st \<Longrightarrow> consistent (saveState st)"
  unfolding consistent_def
  by (auto simp add: stored_saveData load_save_unused split: if_splits)

lemma consistent_registry:
  "consistent st \<Longrightarrow> consistent (st\<lparr>registry := reg\<rparr>)"
  unfolding consistent_def by (simp add: getExtensionFeatureState_def)

lemma consistent_setEnablement:
  assumes "consistent st"
  shows "consistent (snd (setEnablement e f en st))"
proof (cases "getExtensionFeature f st")
  case None
  with assms show ?thesis by (simp add: setEnablement_def)
next
  case (Some feature)
  note c1 = consistent_getAndSet [OF assms, of e f]
  have c2: "consistent (assignFeatureState e f (\<lambda>s. s\<lparr>disabled := Some (\<not> en)\<rparr>)
      (snd (getAndSetIfNotExistsExtensionFeatureState e f st)))"
    by (rule consistent_assign [OF c1]) (simp add: unusedWhileUndecided_def)
  show ?thesis
    using Some c1 c2
    by (simp add: setEnablement_def Let_def case_prod_beta consistent_fire
        consistent_saveState)
qed

lemma consistent_same_records:
  assumes "consistent st" "extensionFeaturesState st' = extensionFeaturesState st"
    and "storage st' = storage st"
  shows "consistent st'"
  using assms unfolding consistent_def by (simp add: getExtensionFeatureState_def)

lemma consistent_recordAccess:
  assumes "consistent st"
    and "suspendedMap r = length (retired st) \<Longrightarrow>
         disabledOf (suspendedExtension r) (suspendedFeatureId r) st \<noteq> None"
  shows "consistent (snd (recordAccess r now st))"
proof -
  let ?e = "suspendedExtension r" and ?f = "suspendedFeatureId r"
  let ?g1 = "\<lambda>s. s\<lparr>accessData := (accessData s)\<lparr>current := Some
                          \<lparr>count = (case current (accessData s) of
                                      None \<Rightarrow> 1
                                    | Some c \<Rightarrow> if count c \<noteq> 0 then count c + 1 else 1),
                           lastAccessed = now,
                           status = (case current (accessData s) of
                                       None \<Rightarrow> None
                                     | Some c \<Rightarrow> status c)\<rparr>\<rparr>\<rparr>"
  let ?g2 = "\<lambda>s. s\<lparr>accessData := (accessData s)\<lparr>totalCount :=
                          totalCount (accessData s) + 1\<rparr>\<rparr>"
  have c2: "consistent (assignThrough r ?g2 (assignThrough r ?g1 st))"
  proof (cases "suspendedMap r = length (retired st)")
    case True
    note d = assms(2) [OF True]
    have c1: "consistent (assignFeatureState ?e ?f ?g1 st)"
      using d
      by (intro consistent_assign [OF assms(1)])
        (auto simp add: unusedWhileUndecided_def disabledOf_def)
    have d1: "disabledOf ?e ?f (assignFeatureState ?e ?f ?g1 st) \<noteq> None"
      using d by (auto simp add: disabledOf_def assign_lookup split: option.splits)
    have "consistent (assignFeatureState ?e ?f ?g2 (assignFeatureState ?e ?f ?g1 st))"
      using d1
      by (intro consistent_assign [OF c1])
        (auto simp add: unusedWhileUndecided_def disabledOf_def)
    with True show ?thesis by (simp add: through_live)
  next
    case False
    then have "suspendedMap r \<noteq> length (retired (assignThrough r ?g1 st))" by simp
    then have "extensionFeaturesState (assignThrough r ?g2 (assignThrough r ?g1 st)) =
        extensionFeaturesState st"
      using False by (simp add: assignThrough_stale)
    with assms(1) show ?thesis
      by (rule consistent_same_records) simp
  qed
  show ?thesis
    using c2 by (simp add: recordAccess_def Let_def consistent_fire consistent_saveState)
qed

lemma setEnablement_after_getAndSet:
  assumes "getExtensionFeature f st = Some feature"
  shows "setEnablement e f en (snd (getAndSetIfNotExistsExtensionFeatureState e f st)) =
   setEnablement e f en st"
proof -
  have "getAndSetIfNotExistsExtensionFeatureState e f
          (snd (getAndSetIfNotExistsExtensionFeatureState e f st)) =
        (fst (getAndSetIfNotExistsExtensionFeatureState e f st),
         snd (getAndSetIfNotExistsExtensionFeatureState e f st))"
    by (rule getAndSet_existing) (simp add: getAndSet_lookup)
  with assms show ?thesis
    by (simp add: setEnablement_def Let_def case_prod_beta)
qed

text \<open>
  The three ways \<^verbatim>\<open>getAccess\<close> goes on a registered feature, and the two ways the rest of
  a suspended call goes.
\<close>

lemma getAccess_disabled:
  assumes "getExtensionFeature f st = Some feature" "disabledOf e f st = Some True"
  shows "getAccess e f now st = (Settled (Inr False), st)"
  using assms
  by (auto simp add: getAccess_def disabledOf_def getAndSet_existing split: option.splits)

lemma getAccess_undecided:
  assumes "getExtensionFeature f st = Some feature" "disabledOf e f st = None"
  shows "getAccess e f now st =
     (Awaiting \<lparr>suspendedExtension = e, suspendedFeatureId = f,
                suspendedMap = length (retired st)\<rparr>,
      snd (getAndSetIfNotExistsExtensionFeatureState e f st))"
proof -
  have d: "disabled (fst (getAndSetIfNotExistsExtensionFeatureState e f st)) = None"
    using assms(2) by (simp add: getAndSet_fst disabledOf_def split: option.splits)
  show ?thesis
    using assms(1) d by (simp add: getAccess_def Let_def case_prod_beta)
qed

lemma getAccessAnswered_unknown:
  assumes "getExtensionFeature (suspendedFeatureId r) st = None"
  shows "getAccessAnswered r confirmed now st = (Inl (NoFeature (suspendedFeatureId r)), st)"
  using assms by (simp add: getAccessAnswered_def setEnablement_def)

lemma getAccessAnswered_known:
  assumes "getExtensionFeature (suspendedFeatureId r) st = Some feature"
  shows "getAccessAnswered r confirmed now st =
     (if confirmed
      then recordAccess r now
             (snd (setEnablement (suspendedExtension r) (suspendedFeatureId r) True st))
      else (Inr False,
            snd (setEnablement (suspendedExtension r) (suspendedFeatureId r) False st)))"
proof -
  have r: "fst (setEnablement (suspendedExtension r) (suspendedFeatureId r) confirmed st) =
      Inr ()"
    by (rule setEnablement_returns [OF assms])
  then show ?thesis
    by (auto simp add: getAccessAnswered_def split: prod.splits sum.splits)
qed

lemma consistent_getAccess:
  assumes "consistent st"
  shows "consistent (snd (getAccess e f now st))"
proof (cases "getExtensionFeature f st")
  case None
  with assms show ?thesis by (simp add: getAccess_def)
next
  case (Some feature)
  show ?thesis
  proof (cases "disabledOf e f st")
    case None
    with consistent_getAndSet [OF assms, of e f] show ?thesis
      by (simp add: getAccess_undecided [OF Some None])
  next
    case d: (Some b)
    show ?thesis
    proof (cases b)
      case True
      with d assms show ?thesis by (simp add: getAccess_disabled [OF Some])
    next
      case False
      with d have "disabledOf e f st \<noteq> None" by simp
      with assms have "consistent
          (snd (recordAccess \<lparr>suspendedExtension = e, suspendedFeatureId = f,
                               suspendedMap = length (retired st)\<rparr> now st))"
        by (intro consistent_recordAccess) simp_all
      with d False show ?thesis by (simp add: getAccess_enabled [OF Some])
    qed
  qed
qed

lemma consistent_getAccessAnswered:
  assumes "consistent st"
  shows "consistent (snd (getAccessAnswered r c now st))"
proof (cases "getExtensionFeature (suspendedFeatureId r) st")
  case None
  with assms show ?thesis by (simp add: getAccessAnswered_unknown)
next
  case (Some feature)
  let ?e = "suspendedExtension r" and ?f = "suspendedFeatureId r"
  let ?s1 = "snd (setEnablement ?e ?f True st)"
  from setEnablement_decided [OF Some, of ?e True]
  have "disabledOf ?e ?f ?s1 \<noteq> None" by simp
  with consistent_setEnablement [OF assms, of ?e ?f True]
  have "consistent (snd (recordAccess r now ?s1))"
    by (intro consistent_recordAccess) simp_all
  with consistent_setEnablement [OF assms, of ?e ?f False] show ?thesis
    by (simp add: getAccessAnswered_known [OF Some])
qed

lemma consistent_setStatus:
  assumes "consistent st"
  shows "consistent (snd (setStatus e f x st))"
proof (cases "getExtensionFeature f st")
  case None
  with assms show ?thesis by (simp add: setStatus_def)
next
  case (Some feature)
  note c1 = consistent_getAndSet [OF assms, of e f]
  have inv: "unusedWhileUndecided s"
    if "getExtensionFeatureState e f
          (snd (getAndSetIfNotExistsExtensionFeatureState e f st)) = Some s"
    for s using c1 that by (auto simp add: consistent_def)
  have "consistent
      (assignFeatureState e f
         (\<lambda>s. s\<lparr>accessData := (accessData s)\<lparr>current := Some
                 \<lparr>count = (case current (accessData s) of None \<Rightarrow> 0 | Some c \<Rightarrow> count c),
                  lastAccessed = (case current (accessData s) of
                                    None \<Rightarrow> 0 | Some c \<Rightarrow> lastAccessed c),
                  status = x\<rparr>\<rparr>\<rparr>)
         (snd (getAndSetIfNotExistsExtensionFeatureState e f st)))"
  proof (rule consistent_assign [OF c1])
    fix s
    assume "getExtensionFeatureState e f
        (snd (getAndSetIfNotExistsExtensionFeatureState e f st)) = Some s"
    then have "unusedWhileUndecided s" by (rule inv)
    then show "unusedWhileUndecided
        (s\<lparr>accessData := (accessData s)\<lparr>current := Some
                 \<lparr>count = (case current (accessData s) of None \<Rightarrow> 0 | Some c \<Rightarrow> count c),
                  lastAccessed = (case current (accessData s) of
                                    None \<Rightarrow> 0 | Some c \<Rightarrow> lastAccessed c),
                  status = x\<rparr>\<rparr>\<rparr>)"
      by (auto simp add: unusedWhileUndecided_def split: option.splits)
  qed
  with Some show ?thesis
    by (simp add: setStatus_def Let_def case_prod_beta consistent_fire)
qed

lemma consistent_call:
  "consistent st \<Longrightarrow> consistent (snd (call x st))"
  by (cases x)
    (simp_all only: call_snd consistent_setEnablement consistent_getAccess
      consistent_getAccessAnswered consistent_setStatus)

lemma compareFeature_fields [simp]:
  "registry (compareFeature old e f st) = registry st"
  "storage (compareFeature old e f st) = storage st"
  "extensionFeaturesState (compareFeature old e f st) = extensionFeaturesState st"
  by (simp_all add: compareFeature_def Let_def)

lemma fold_keeps:
  assumes "\<And>x s. g (h x s) = g s"
  shows "g (fold h xs s) = g s"
  by (induction xs arbitrary: s) (simp_all add: assms)

lemma onDidStorageChange_fields:
  "registry (onDidStorageChange b st) = registry st"
  "storage (onDidStorageChange b st) = storage st"
  "extensionFeaturesState (onDidStorageChange True st) = loadState (storage st)"
  "onDidStorageChange False st = st"
  by (simp_all add: onDidStorageChange_def Let_def fold_keeps)

lemma externalChange_fields:
  "registry (externalChange raw st) = registry st"
  "storage (externalChange raw st) = raw"
  "getExtensionFeatureState e f (externalChange raw st) =
     map_option loadFeature (storedFeatureOf e f raw)"
proof -
  show "registry (externalChange raw st) = registry st"
    by (simp add: externalChange_def onDidStorageChange_fields)
  show "storage (externalChange raw st) = raw"
    by (simp add: externalChange_def onDidStorageChange_fields)
  have "getExtensionFeatureState e f (externalChange raw st) =
      getExtensionFeatureState e f (st\<lparr>extensionFeaturesState := loadState raw\<rparr>)"
    by (simp add: externalChange_def onDidStorageChange_fields getExtensionFeatureState_def)
  then show "getExtensionFeatureState e f (externalChange raw st) =
     map_option loadFeature (storedFeatureOf e f raw)"
    by (simp add: lookup_loadState)
qed

lemma reachable_consistent:
  "reachable st \<Longrightarrow> consistent st"
proof (induction rule: reachable.induct)
  case (fresh reg)
  show ?case by (rule consistent_construct) (simp add: storedFeatureOf_def)
next
  case (restart st reg)
  then show ?case by (intro consistent_construct) (simp add: consistent_def)
next
  case (called st x)
  from called.IH show ?case by (rule consistent_call)
next
  case (contributed st reg)
  from contributed.IH show ?case by (rule consistent_registry)
next
  case (external st st')
  then show ?case
    by (auto simp add: consistent_def externalChange_fields)
qed

lemma undecided_unused:
  assumes "reachable st" "disabledOf e f st = None"
  shows "totalCountOf e f st = 0" and "countOf e f st = 0"
proof -
  from assms(1) have c: "consistent st" by (rule reachable_consistent)
  show "totalCountOf e f st = 0"
  proof (cases "getExtensionFeatureState e f st")
    case None
    then show ?thesis by (simp add: totalCountOf_def)
  next
    case (Some s)
    with c have "unusedWhileUndecided s" by (auto simp add: consistent_def)
    with Some assms(2) show ?thesis
      by (simp add: unusedWhileUndecided_def totalCountOf_def disabledOf_def)
  qed
  show "countOf e f st = 0"
  proof (cases "getExtensionFeatureState e f st")
    case None
    then show ?thesis by (simp add: countOf_def currentOf_def)
  next
    case (Some s)
    with c have "unusedWhileUndecided s" by (auto simp add: consistent_def)
    with Some assms(2) show ?thesis
      by (auto simp add: unusedWhileUndecided_def countOf_def currentOf_def disabledOf_def
          split: option.splits)
  qed
qed

subsection \<open>The first access of a pair\<close>










subsection \<open>Saving and starting again\<close>

text \<open>
  Claim C5, as amended. Take any state, save it, and construct a service with the same
  registry from what was stored. For every pair, the stored entry holds the \<^verbatim>\<open>disabled\<close> and,
  as \<^verbatim>\<open>accessCount\<close>, the total of the record the state holds for the pair, and nothing of
  its session data; there is no entry if the state holds no record of the pair or if the
  extension id or the feature id is \<^verbatim>\<open>__proto__\<close>. The new service holds for the pair the
  record made of the stored entry: its \<^verbatim>\<open>disabled\<close>, its \<^verbatim>\<open>accessCount\<close> as total, and no
  session data; it holds no record where there is no entry. For a stored entry whose
  feature is registered, \<^verbatim>\<open>isEnabled\<close> of the new service is true exactly if the stored
  \<^verbatim>\<open>disabled\<close> is not \<^verbatim>\<open>true\<close>, and its access data are the stored \<^verbatim>\<open>accessCount\<close> as total
  and no session data. For a stored entry of a feature that is not registered the new
  service holds the record but answers as for every unregistered feature: not enabled, no
  access data. For a pair without a stored entry there are no access data, and the pair is
  enabled if its feature is registered.
\<close>

theorem restart_reproduces_stored:
  "let st1 = saveState st;
       st' = construct (registry st1) (storage st1);
       stored = storedFeatureOf extension featureId (storage st1)
   in stored =
        (if extension = ''__proto__'' \<or> featureId = ''__proto__'' then None
         else map_option
                (\<lambda>s. \<lparr>storedDisabled = disabled s, accessCount = totalCount (accessData s)\<rparr>)
                (getExtensionFeatureState extension featureId st)) \<and>
      getExtensionFeatureState extension featureId st' =
        map_option
          (\<lambda>x. \<lparr>disabled = storedDisabled x,
                 accessData = \<lparr>totalCount = accessCount x, current = None\<rparr>\<rparr>)
          stored \<and>
      getExtensionFeature featureId st' = getExtensionFeature featureId st \<and>
      (case stored of
         None \<Rightarrow>
           getAccessData extension featureId st' = None \<and>
           isEnabled extension featureId st' = (getExtensionFeature featureId st' \<noteq> None)
       | Some x \<Rightarrow>
           (if getExtensionFeature featureId st' = None
            then isEnabled extension featureId st' = False \<and>
                 getAccessData extension featureId st' = None
            else isEnabled extension featureId st' = (storedDisabled x \<noteq> Some True) \<and>
                 getAccessData extension featureId st' =
                   Some \<lparr>totalCount = accessCount x, current = None\<rparr>))"
proof -
  let ?st' = "construct (registry (saveState st)) (storage (saveState st))"
  let ?stored = "storedFeatureOf extension featureId (storage (saveState st))"
  have saved: "?stored =
      (if extension = ''__proto__'' \<or> featureId = ''__proto__'' then None
       else map_option
              (\<lambda>s. \<lparr>storedDisabled = disabled s, accessCount = totalCount (accessData s)\<rparr>)
              (getExtensionFeatureState extension featureId st))"
    unfolding stored_saveState
    by (cases "getExtensionFeatureState extension featureId st")
      (simp_all add: ownKey_def saveFeature_def)
  have look: "getExtensionFeatureState extension featureId ?st' =
      map_option loadFeature ?stored"
    by (rule lookup_construct)
  have loaded: "getExtensionFeatureState extension featureId ?st' =
      map_option
        (\<lambda>x. \<lparr>disabled = storedDisabled x,
               accessData = \<lparr>totalCount = accessCount x, current = None\<rparr>\<rparr>)
        ?stored"
    unfolding look by (cases ?stored) (simp_all add: loadFeature_def)
  have reg: "getExtensionFeature featureId ?st' = getExtensionFeature featureId st"
    by (simp add: getExtensionFeature_def construct_def)
  have answers: "case ?stored of
      None \<Rightarrow>
        getAccessData extension featureId ?st' = None \<and>
        isEnabled extension featureId ?st' = (getExtensionFeature featureId ?st' \<noteq> None)
    | Some x \<Rightarrow>
        (if getExtensionFeature featureId ?st' = None
         then isEnabled extension featureId ?st' = False \<and>
              getAccessData extension featureId ?st' = None
         else isEnabled extension featureId ?st' = (storedDisabled x \<noteq> Some True) \<and>
              getAccessData extension featureId ?st' =
                Some \<lparr>totalCount = accessCount x, current = None\<rparr>)"
  proof (cases ?stored)
    case None
    then show ?thesis
      using look by (auto simp add: getAccessData_def isEnabled_def split: option.splits)
  next
    case (Some x)
    with look show ?thesis
      by (auto simp add: getAccessData_def isEnabled_def loadFeature_def
          split: option.splits)
  qed
  from saved loaded reg answers show ?thesis
    unfolding Let_def by (intro conjI)
qed

theorem restart_reproduces_stored_witness:
  "getExtensionFeatureState ''pub.ext'' ''codeActions'' demoTwice =
     Some \<lparr>disabled = Some False,
           accessData = \<lparr>totalCount = 2,
             current = Some \<lparr>count = 2, lastAccessed = 20, status = None\<rparr>\<rparr>\<rparr> \<and>
   storage (saveState demoTwice) =
     Some (Json [(''pub.ext'',
                  [(''codeActions'', \<lparr>storedDisabled = Some False, accessCount = 2\<rparr>)])]) \<and>
   storedFeatureOf ''pub.ext'' ''codeActions'' (storage (saveState demoTwice)) =
     Some \<lparr>storedDisabled = Some False, accessCount = 2\<rparr> \<and>
   getExtensionFeatureState ''pub.ext'' ''codeActions''
     (construct (registry (saveState demoTwice)) (storage (saveState demoTwice))) =
     Some \<lparr>disabled = Some False, accessData = \<lparr>totalCount = 2, current = None\<rparr>\<rparr> \<and>
   getExtensionFeature ''codeActions''
     (construct (registry (saveState demoTwice)) (storage (saveState demoTwice))) =
     Some \<lparr>label = ''Code Actions'', description = []\<rparr> \<and>
   isEnabled ''pub.ext'' ''codeActions''
     (construct (registry (saveState demoTwice)) (storage (saveState demoTwice))) \<and>
   getAccessData ''pub.ext'' ''codeActions''
     (construct (registry (saveState demoTwice)) (storage (saveState demoTwice))) =
     Some \<lparr>totalCount = 2, current = None\<rparr>"
proof -
  have g: "getExtensionFeatureState ''pub.ext'' ''codeActions'' demoTwice =
     Some \<lparr>disabled = Some False,
           accessData = \<lparr>totalCount = 2,
             current = Some \<lparr>count = 2, lastAccessed = 20, status = None\<rparr>\<rparr>\<rparr>"
    by code_simp
  have w: "storage (saveState demoTwice) =
     Some (Json [(''pub.ext'',
                  [(''codeActions'', \<lparr>storedDisabled = Some False, accessCount = 2\<rparr>)])])"
    by code_simp
  have f: "getExtensionFeature ''codeActions'' demoTwice =
      Some \<lparr>label = ''Code Actions'', description = []\<rparr>"
    by code_simp
  note again = restart_reproduces_stored [where st = demoTwice
      and extension = "''pub.ext''" and featureId = "''codeActions''", unfolded Let_def]
  from again g have s: "storedFeatureOf ''pub.ext'' ''codeActions''
      (storage (saveState demoTwice)) =
      Some \<lparr>storedDisabled = Some False, accessCount = 2\<rparr>"
    by simp
  from again have l: "getExtensionFeatureState ''pub.ext'' ''codeActions''
      (construct (registry (saveState demoTwice)) (storage (saveState demoTwice))) =
      Some \<lparr>disabled = Some False, accessData = \<lparr>totalCount = 2, current = None\<rparr>\<rparr>"
    unfolding s by simp
  from again f have r: "getExtensionFeature ''codeActions''
      (construct (registry (saveState demoTwice)) (storage (saveState demoTwice))) =
      Some \<lparr>label = ''Code Actions'', description = []\<rparr>"
    by simp
  from again have a: "isEnabled ''pub.ext'' ''codeActions''
      (construct (registry (saveState demoTwice)) (storage (saveState demoTwice))) \<and>
    getAccessData ''pub.ext'' ''codeActions''
      (construct (registry (saveState demoTwice)) (storage (saveState demoTwice))) =
      Some \<lparr>totalCount = 2, current = None\<rparr>"
    unfolding s r by simp
  from g w s l r a show ?thesis
    by (intro conjI) simp_all
qed

text \<open>
  The claim as it was stated speaks of every pair. In the reachable state \<open>demoLoaded\<close> the
  feature \<^verbatim>\<open>telemetry\<close> is not registered; its entry is stored with \<^verbatim>\<open>disabled\<close> false and
  three accesses, and after saving and starting again \<^verbatim>\<open>isEnabled\<close> is false and there are
  no access data.
\<close>

theorem restart_unregistered_counterexample:
  "reachable demoLoaded \<and>
   storedFeatureOf ''pub.ext'' ''telemetry'' (storage (saveState demoLoaded)) =
     Some \<lparr>storedDisabled = Some False, accessCount = 3\<rparr> \<and>
   isEnabled ''pub.ext'' ''telemetry''
     (construct (registry (saveState demoLoaded)) (storage (saveState demoLoaded))) = False \<and>
   getAccessData ''pub.ext'' ''telemetry''
     (construct (registry (saveState demoLoaded)) (storage (saveState demoLoaded))) = None"
proof -
  have "storedFeatureOf ''pub.ext'' ''telemetry'' (storage (saveState demoLoaded)) =
     Some \<lparr>storedDisabled = Some False, accessCount = 3\<rparr>" by code_simp
  moreover have "isEnabled ''pub.ext'' ''telemetry''
     (construct (registry (saveState demoLoaded)) (storage (saveState demoLoaded))) = False"
    by code_simp
  moreover have "getAccessData ''pub.ext'' ''telemetry''
     (construct (registry (saveState demoLoaded)) (storage (saveState demoLoaded))) = None"
    by code_simp
  ultimately show ?thesis using demoLoaded_reachable by simp
qed

subsection \<open>The lifetime total\<close>

lemma totalCountOf_setEnablement [simp]:
  "totalCountOf e f (snd (setEnablement e' f' en st)) = totalCountOf e f st"
  by (auto simp add: setEnablement_def Let_def case_prod_beta totalCountOf_def
      getAndSet_lookup getAndSet_fst assign_lookup split: option.splits)

lemma totalCountOf_setStatus [simp]:
  "totalCountOf e f (snd (setStatus e' f' x st)) = totalCountOf e f st"
  by (auto simp add: setStatus_def Let_def case_prod_beta totalCountOf_def
      getAndSet_lookup getAndSet_fst assign_lookup split: option.splits)

lemma totalCountOf_getAndSet [simp]:
  "totalCountOf e f (snd (getAndSetIfNotExistsExtensionFeatureState e' f' st)) =
     totalCountOf e f st"
  by (auto simp add: totalCountOf_def getAndSet_lookup getAndSet_fst split: option.splits)

lemma totalCountOf_recordAccess:
  assumes "suspendedMap r = length (retired st) \<Longrightarrow>
           getExtensionFeatureState (suspendedExtension r) (suspendedFeatureId r) st \<noteq> None"
  shows "totalCountOf e f (snd (recordAccess r now st)) =
     totalCountOf e f st +
     (if suspendedMap r = length (retired st) \<and> suspendedExtension r = e \<and>
         suspendedFeatureId r = f then 1 else 0)"
proof (cases "suspendedMap r = length (retired st)")
  case True
  from assms [OF True] obtain s where
    s: "getExtensionFeatureState (suspendedExtension r) (suspendedFeatureId r) st = Some s"
    by auto
  from recordAccess_effect(1) [OF True refl refl s, of e f now] s True show ?thesis
    by (auto simp add: totalCountOf_def)
next
  case False
  then have "getExtensionFeatureState e f (snd (recordAccess r now st)) =
      getExtensionFeatureState e f st"
    by (simp add: recordAccess_def Let_def assignThrough_stale)
  with False show ?thesis by (simp add: totalCountOf_def)
qed

lemma getAccess_total:
  "(\<forall>x. fst (getAccess e' f' now st) \<noteq> Settled (Inl x)) \<and>
   totalCountOf e f (snd (getAccess e' f' now st)) =
     totalCountOf e f st +
     (if fst (getAccess e' f' now st) = Settled (Inr True) \<and> e' = e \<and> f' = f then 1 else 0)"
proof (cases "getExtensionFeature f' st")
  case None
  then show ?thesis by (auto simp add: getAccess_def)
next
  case (Some feature)
  show ?thesis
  proof (cases "disabledOf e' f' st")
    case None
    show ?thesis
      by (simp add: getAccess_undecided [OF Some None])
  next
    case d: (Some b)
    then obtain s where s: "getExtensionFeatureState e' f' st = Some s"
      by (auto simp add: disabledOf_def split: option.splits)
    show ?thesis
    proof (cases b)
      case True
      with d show ?thesis
        by (auto simp add: getAccess_disabled [OF Some])
    next
      case False
      have "totalCountOf e f
          (snd (recordAccess \<lparr>suspendedExtension = e', suspendedFeatureId = f',
                               suspendedMap = length (retired st)\<rparr> now st)) =
        totalCountOf e f st + (if e' = e \<and> f' = f then 1 else 0)"
        using s by (subst totalCountOf_recordAccess) simp_all
      with d False show ?thesis
        by (simp add: getAccess_enabled [OF Some])
    qed
  qed
qed

lemma getAccessAnswered_total:
  "totalCountOf e f (snd (getAccessAnswered r c now st)) =
     totalCountOf e f st +
     (if fst (getAccessAnswered r c now st) = Inr True \<and> suspendedExtension r = e \<and>
         suspendedFeatureId r = f \<and> suspendedMap r = length (retired st) then 1 else 0)"
proof (cases "getExtensionFeature (suspendedFeatureId r) st")
  case None
  then show ?thesis by (simp add: getAccessAnswered_unknown)
next
  case (Some feature)
  let ?s1 = "snd (setEnablement (suspendedExtension r) (suspendedFeatureId r) True st)"
  from setEnablement_decided [OF Some, of "suspendedExtension r" True]
  have "getExtensionFeatureState (suspendedExtension r) (suspendedFeatureId r) ?s1 \<noteq> None"
    by (auto simp add: disabledOf_def split: option.splits)
  then have "totalCountOf e f (snd (recordAccess r now ?s1)) =
      totalCountOf e f ?s1 +
      (if suspendedMap r = length (retired ?s1) \<and> suspendedExtension r = e \<and>
          suspendedFeatureId r = f then 1 else 0)"
    by (intro totalCountOf_recordAccess)
  then show ?thesis
    by (auto simp add: getAccessAnswered_known [OF Some] setEnablement_retired)
qed

lemma setStatus_retired:
  "retired (snd (setStatus e f x st)) = retired st"
  by (auto simp add: setStatus_def Let_def case_prod_beta split: option.splits)

lemma getAccess_generation:
  "length (retired (snd (getAccess e f now st))) = length (retired st)"
  by (auto simp add: getAccess_def Let_def case_prod_beta split: option.splits)

lemma getAccessAnswered_generation:
  "length (retired (snd (getAccessAnswered r c now st))) = length (retired st)"
proof (cases "getExtensionFeature (suspendedFeatureId r) st")
  case None
  then show ?thesis by (simp add: getAccessAnswered_unknown)
next
  case (Some feature)
  then show ?thesis
    by (simp add: getAccessAnswered_known [OF Some] setEnablement_retired)
qed

lemma call_generation:
  "length (retired (snd (call x st))) = length (retired st)"
  by (cases x)
    (simp_all add: call_snd setEnablement_retired setStatus_retired getAccess_generation
      getAccessAnswered_generation del: call.simps)

lemma call_total:
  "totalCountOf e f (snd (call x st)) =
     totalCountOf e f st +
     (if granted (length (retired st)) e f (x, fst (call x st)) then 1 else 0)"
proof (cases x)
  case (GetAccess e' f' now)
  show ?thesis
  proof (cases "fst (getAccess e' f' now st)")
    case (Settled y)
    with getAccess_total [of e' f' now st e f] obtain b where b: "y = Inr b"
      by (cases y) auto
    with getAccess_total [of e' f' now st e f] GetAccess Settled show ?thesis
      by (simp add: call_snd call_fst_getAccess del: call.simps)
  next
    case (Awaiting r)
    with getAccess_total [of e' f' now st e f] GetAccess show ?thesis
      by (simp add: call_snd call_fst_getAccess del: call.simps)
  qed
next
  case (DialogAnswered r c now)
  with getAccessAnswered_total [of e f r c now st] show ?thesis
    by (cases "fst (getAccessAnswered r c now st)")
      (auto simp add: call_snd call_fst_getAccess simp del: call.simps)
qed (simp_all add: call_snd del: call.simps)

lemma calls_total:
  "totalCountOf e f (snd (calls xs st)) =
     totalCountOf e f st +
     int (length (filter (granted (length (retired st)) e f) (zip xs (fst (calls xs st)))))"
proof (induction xs arbitrary: st)
  case Nil
  then show ?case by simp
next
  case (Cons x xs)
  show ?case
    using Cons.IH [of "snd (call x st)"] call_total [of e f x st]
    by (simp add: calls_Cons call_generation del: calls.simps call.simps)
qed

text \<open>
  Claim C9, as amended. Over any sequence of calls of the operations of the service and of
  answers of its dialogs, from any state, the total of a pair ends as what it was plus the
  number of accesses granted to that pair and recorded on its record in the map in use:
  the calls of \<^verbatim>\<open>getAccess\<close> that returned true at once, and those that returned true when
  their dialog was answered, the call having started on this map. So the total never
  decreases and nothing else changes it. A change of the storage from outside is
  different: it replaces the total by the stored \<^verbatim>\<open>accessCount\<close> of the pair, or drops the
  record if there is none; and a call whose dialog was open meanwhile records its access
  on the record of the replaced map.
\<close>

theorem totalCount_counts_granted_accesses:
  "totalCountOf extension featureId (snd (calls xs st)) =
     totalCountOf extension featureId st +
     int (length (filter (granted (length (retired st)) extension featureId)
                    (zip xs (fst (calls xs st))))) \<and>
   totalCountOf extension featureId st \<le> totalCountOf extension featureId (snd (calls xs st)) \<and>
   totalCountOf extension featureId (externalChange raw st) =
     (case storedFeatureOf extension featureId raw of None \<Rightarrow> 0 | Some x \<Rightarrow> accessCount x)"
  using calls_total [of extension featureId xs st]
  by (simp add: totalCountOf_def [of _ _ "externalChange raw st"] externalChange_fields
      loadFeature_def split: option.splits)

theorem totalCount_counts_granted_accesses_witness:
  "totalCountOf ''pub.ext'' ''codeActions''
     (snd (calls [GetAccess ''pub.ext'' ''codeActions'' 5,
                  SetStatus ''pub.ext'' ''codeActions'' None,
                  GetAccess ''other.ext'' ''codeActions'' 6,
                  GetAccess ''pub.ext'' ''codeActions'' 7,
                  DialogAnswered \<lparr>suspendedExtension = ''other.ext'',
                                   suspendedFeatureId = ''codeActions'',
                                   suspendedMap = 0\<rparr> True 8] demoEnabled)) = 2 \<and>
   totalCountOf ''pub.ext'' ''codeActions'' demoEnabled = 0 \<and>
   totalCountOf ''pub.ext'' ''codeActions'' (externalChange (Some demoStored) demoEnabled) = 2"
proof -
  have "fst (calls [GetAccess ''pub.ext'' ''codeActions'' 5,
                  SetStatus ''pub.ext'' ''codeActions'' None,
                  GetAccess ''other.ext'' ''codeActions'' 6,
                  GetAccess ''pub.ext'' ''codeActions'' 7,
                  DialogAnswered \<lparr>suspendedExtension = ''other.ext'',
                                   suspendedFeatureId = ''codeActions'',
                                   suspendedMap = 0\<rparr> True 8] demoEnabled) =
     [ReturnedBool True, ReturnedVoid,
      Suspended \<lparr>suspendedExtension = ''other.ext'', suspendedFeatureId = ''codeActions'',
                  suspendedMap = 0\<rparr>,
      ReturnedBool True, ReturnedBool True]"
    by code_simp
  moreover have "totalCountOf ''pub.ext'' ''codeActions'' demoEnabled = 0" by code_simp
  moreover have "length (retired demoEnabled) = 0" by code_simp
  moreover have "storedFeatureOf ''pub.ext'' ''codeActions'' (Some demoStored) =
      Some \<lparr>storedDisabled = Some True, accessCount = 2\<rparr>" by code_simp
  ultimately show ?thesis
    using totalCount_counts_granted_accesses [of "''pub.ext''" "''codeActions''"
      "[GetAccess ''pub.ext'' ''codeActions'' 5,
        SetStatus ''pub.ext'' ''codeActions'' None,
        GetAccess ''other.ext'' ''codeActions'' 6,
        GetAccess ''pub.ext'' ''codeActions'' 7,
        DialogAnswered \<lparr>suspendedExtension = ''other.ext'',
                         suspendedFeatureId = ''codeActions'',
                         suspendedMap = 0\<rparr> True 8]" demoEnabled "Some demoStored"]
    by simp
qed

text \<open>
  The claim as it was stated lets the total never decrease. One window has granted two
  accesses, another window, started on the same empty profile, has granted one and stored
  its state; when the first window is told of that change, its total goes from \<open>2\<close> to \<open>1\<close>.
\<close>

theorem totalCount_decreases_on_reload:
  "reachable demoTwice \<and> reachable demoOnce \<and>
   totalCountOf ''pub.ext'' ''codeActions'' demoTwice = 2 \<and>
   totalCountOf ''pub.ext'' ''codeActions'' (externalChange (storage demoOnce) demoTwice) = 1 \<and>
   reachable (externalChange (storage demoOnce) demoTwice)"
proof -
  have "totalCountOf ''pub.ext'' ''codeActions'' demoTwice = 2" by code_simp
  moreover have
    "totalCountOf ''pub.ext'' ''codeActions'' (externalChange (storage demoOnce) demoTwice) = 1"
    by code_simp
  ultimately show ?thesis
    using demo_reachable(4,5) reachable.external [OF demo_reachable(4,5)] by simp
qed

subsection \<open>Further properties of the operations\<close>

text \<open>
  Property X1. \<^verbatim>\<open>getAccess\<close> does not throw before it asks the dialog: in every state, for
  every extension, feature id and time, the call settles with a boolean or is suspended.
  The rest of a suspended call throws exactly if the feature is not registered any more
  when the dialog is answered, the error being that of \<^verbatim>\<open>setEnablement\<close>; otherwise it
  returns the answer of the dialog.
\<close>

theorem getAccess_throws_only_unregistered:
  "(\<forall>x. fst (getAccess extension featureId now st) \<noteq> Settled (Inl x)) \<and>
   fst (getAccessAnswered r confirmed now st) =
     (case getExtensionFeature (suspendedFeatureId r) st of
        None \<Rightarrow> Inl (NoFeature (suspendedFeatureId r))
      | Some feature \<Rightarrow> Inr confirmed)"
proof -
  have "fst (getAccessAnswered r confirmed now st) =
     (case getExtensionFeature (suspendedFeatureId r) st of
        None \<Rightarrow> Inl (NoFeature (suspendedFeatureId r))
      | Some feature \<Rightarrow> Inr confirmed)"
  proof (cases "getExtensionFeature (suspendedFeatureId r) st")
    case None
    then show ?thesis by (simp add: getAccessAnswered_unknown)
  next
    case (Some feature)
    then show ?thesis by (simp add: getAccessAnswered_known [OF Some])
  qed
  with getAccess_total [of extension featureId now st extension featureId]
  show ?thesis by blast
qed

theorem getAccess_throws_only_unregistered_witness:
  "fst (getAccess ''pub.ext'' ''telemetry'' 9 demoWriter) = Settled (Inr True) \<and>
   fst (getAccess ''pub.ext'' ''codeActions'' 9 demoWriter) = Settled (Inr False) \<and>
   fst (getAccess ''pub.ext'' ''codeActions'' 9 demoFresh) = Awaiting demoDialog \<and>
   getExtensionFeature ''telemetry'' (demoWriter\<lparr>registry := demoRegistry\<rparr>) = None \<and>
   fst (getAccessAnswered demoTelemetryDialog True 9 (demoWriter\<lparr>registry := demoRegistry\<rparr>)) =
     Inl (NoFeature ''telemetry'') \<and>
   fst (getAccessAnswered demoDialog False 9 demoFresh) = Inr False"
proof -
  have u: "getExtensionFeature (suspendedFeatureId demoTelemetryDialog)
      (demoWriter\<lparr>registry := demoRegistry\<rparr>) = None" by code_simp
  have u': "getExtensionFeature ''telemetry'' (demoWriter\<lparr>registry := demoRegistry\<rparr>) = None"
    by code_simp
  have k: "getExtensionFeature (suspendedFeatureId demoDialog) demoFresh =
      Some \<lparr>label = ''Code Actions'', description = []\<rparr>" by code_simp
  have n: "suspendedFeatureId demoTelemetryDialog = ''telemetry''" by code_simp
  have a: "fst (getAccess ''pub.ext'' ''telemetry'' 9 demoWriter) = Settled (Inr True)"
    by code_simp
  have b: "fst (getAccess ''pub.ext'' ''codeActions'' 9 demoWriter) = Settled (Inr False)"
    by code_simp
  have c: "fst (getAccess ''pub.ext'' ''codeActions'' 9 demoFresh) = Awaiting demoDialog"
    by code_simp
  from getAccess_throws_only_unregistered [where r = demoTelemetryDialog
      and confirmed = True and now = 9 and st = "demoWriter\<lparr>registry := demoRegistry\<rparr>"] u n
  have d: "fst (getAccessAnswered demoTelemetryDialog True 9
                  (demoWriter\<lparr>registry := demoRegistry\<rparr>)) = Inl (NoFeature ''telemetry'')"
    by simp
  from getAccess_throws_only_unregistered [where r = demoDialog
      and confirmed = False and now = 9 and st = demoFresh] k
  have e: "fst (getAccessAnswered demoDialog False 9 demoFresh) = Inr False"
    by simp
  from a b c u' d e show ?thesis by (intro conjI)
qed

lemma setStatus_keeps:
  "getExtensionFeatureState e f st \<noteq> None \<Longrightarrow>
     getExtensionFeatureState e f (snd (setStatus e' f' x st)) \<noteq> None"
  "disabledOf e f (snd (setStatus e' f' x st)) = disabledOf e f st"
  by (auto simp add: setStatus_def Let_def case_prod_beta disabledOf_def
      getAndSet_lookup getAndSet_fst assign_lookup split: option.splits)

lemma setEnablement_keeps:
  "getExtensionFeatureState e f st \<noteq> None \<Longrightarrow>
     getExtensionFeatureState e f (snd (setEnablement e' f' en st)) \<noteq> None"
  "disabledOf e f st \<noteq> None \<Longrightarrow> disabledOf e f (snd (setEnablement e' f' en st)) \<noteq> None"
  by (auto simp add: setEnablement_def Let_def case_prod_beta disabledOf_def
      getAndSet_lookup getAndSet_fst assign_lookup split: option.splits)

lemma getAndSet_keeps:
  "getExtensionFeatureState e f st \<noteq> None \<Longrightarrow>
     getExtensionFeatureState e f
       (snd (getAndSetIfNotExistsExtensionFeatureState e' f' st)) \<noteq> None"
  "disabledOf e f st \<noteq> None \<Longrightarrow>
     disabledOf e f (snd (getAndSetIfNotExistsExtensionFeatureState e' f' st)) \<noteq> None"
  by (auto simp add: disabledOf_def getAndSet_lookup getAndSet_fst split: option.splits)

lemma recordAccess_lookup:
  "getExtensionFeatureState e f (snd (recordAccess r now st)) =
     (if suspendedMap r = length (retired st) \<and> e = suspendedExtension r \<and>
         f = suspendedFeatureId r
      then map_option
             (\<lambda>s. s\<lparr>accessData := \<lparr>totalCount = totalCount (accessData s) + 1,
                     current = Some \<lparr>count = (case current (accessData s) of
                                         None \<Rightarrow> 1
                                       | Some c \<Rightarrow> if count c \<noteq> 0 then count c + 1 else 1),
                              lastAccessed = now,
                              status = (case current (accessData s) of
                                          None \<Rightarrow> None
                                        | Some c \<Rightarrow> status c)\<rparr>\<rparr>\<rparr>)
             (getExtensionFeatureState e f st)
      else getExtensionFeatureState e f st)"
proof (cases "suspendedMap r = length (retired st)")
  case True
  then show ?thesis
    by (cases "getExtensionFeatureState (suspendedExtension r) (suspendedFeatureId r) st")
      (auto simp add: recordAccess_def Let_def through_live assign_lookup)
next
  case False
  then show ?thesis
    by (simp add: recordAccess_def Let_def assignThrough_stale)
qed

lemma recordAccess_keeps:
  "getExtensionFeatureState e f st \<noteq> None \<Longrightarrow>
     getExtensionFeatureState e f (snd (recordAccess r now st)) \<noteq> None"
  "disabledOf e f st \<noteq> None \<Longrightarrow> disabledOf e f (snd (recordAccess r now st)) \<noteq> None"
  by (auto simp add: recordAccess_lookup disabledOf_def split: option.splits)

lemma getAccess_keeps:
  "getExtensionFeatureState e f st \<noteq> None \<Longrightarrow>
     getExtensionFeatureState e f (snd (getAccess e' f' now st)) \<noteq> None"
  "disabledOf e f st \<noteq> None \<Longrightarrow> disabledOf e f (snd (getAccess e' f' now st)) \<noteq> None"
proof -
  have both: "(getExtensionFeatureState e f st \<noteq> None \<longrightarrow>
       getExtensionFeatureState e f (snd (getAccess e' f' now st)) \<noteq> None) \<and>
     (disabledOf e f st \<noteq> None \<longrightarrow> disabledOf e f (snd (getAccess e' f' now st)) \<noteq> None)"
  proof (cases "getExtensionFeature f' st")
    case None
    then show ?thesis by (simp add: getAccess_def)
  next
    case (Some feature)
    show ?thesis
    proof (cases "disabledOf e' f' st")
      case None
      show ?thesis
        using getAndSet_keeps [where e = e and f = f and st = st and e' = e' and f' = f']
        by (auto simp add: getAccess_undecided [OF Some None])
    next
      case d: (Some b)
      show ?thesis
        using recordAccess_keeps [where e = e and f = f and st = st and now = now
            and r = "\<lparr>suspendedExtension = e', suspendedFeatureId = f',
                      suspendedMap = length (retired st)\<rparr>"] d
        by (cases b)
          (auto simp add: getAccess_disabled [OF Some] getAccess_enabled [OF Some])
    qed
  qed
  from both show "getExtensionFeatureState e f st \<noteq> None \<Longrightarrow>
     getExtensionFeatureState e f (snd (getAccess e' f' now st)) \<noteq> None" by simp
  from both show "disabledOf e f st \<noteq> None \<Longrightarrow>
     disabledOf e f (snd (getAccess e' f' now st)) \<noteq> None" by simp
qed

lemma getAccessAnswered_keeps:
  "getExtensionFeatureState e f st \<noteq> None \<Longrightarrow>
     getExtensionFeatureState e f (snd (getAccessAnswered r c now st)) \<noteq> None"
  "disabledOf e f st \<noteq> None \<Longrightarrow>
     disabledOf e f (snd (getAccessAnswered r c now st)) \<noteq> None"
proof -
  have both: "(getExtensionFeatureState e f st \<noteq> None \<longrightarrow>
       getExtensionFeatureState e f (snd (getAccessAnswered r c now st)) \<noteq> None) \<and>
     (disabledOf e f st \<noteq> None \<longrightarrow>
       disabledOf e f (snd (getAccessAnswered r c now st)) \<noteq> None)"
  proof (cases "getExtensionFeature (suspendedFeatureId r) st")
    case None
    then show ?thesis by (simp add: getAccessAnswered_unknown)
  next
    case (Some feature)
    show ?thesis
      using setEnablement_keeps [where e = e and f = f and st = st
          and e' = "suspendedExtension r" and f' = "suspendedFeatureId r"]
        recordAccess_keeps [where e = e and f = f and r = r and now = now
          and st = "snd (setEnablement (suspendedExtension r) (suspendedFeatureId r) True st)"]
      by (auto simp add: getAccessAnswered_known [OF Some])
  qed
  from both show "getExtensionFeatureState e f st \<noteq> None \<Longrightarrow>
     getExtensionFeatureState e f (snd (getAccessAnswered r c now st)) \<noteq> None" by simp
  from both show "disabledOf e f st \<noteq> None \<Longrightarrow>
     disabledOf e f (snd (getAccessAnswered r c now st)) \<noteq> None" by simp
qed

text \<open>
  Property X2. No sequence of calls of the operations and of answers of dialogs deletes
  the record of a pair, and a decision, once recorded for a pair, stays recorded.
\<close>

theorem decisions_and_records_stay:
  "(getExtensionFeatureState extension featureId st \<noteq> None \<longrightarrow>
      getExtensionFeatureState extension featureId (snd (calls xs st)) \<noteq> None) \<and>
   (disabledOf extension featureId st \<noteq> None \<longrightarrow>
      disabledOf extension featureId (snd (calls xs st)) \<noteq> None)"
proof (induction xs arbitrary: st)
  case Nil
  then show ?case by simp
next
  case (Cons x xs)
  have step: "(getExtensionFeatureState extension featureId st \<noteq> None \<longrightarrow>
      getExtensionFeatureState extension featureId (snd (call x st)) \<noteq> None) \<and>
   (disabledOf extension featureId st \<noteq> None \<longrightarrow>
      disabledOf extension featureId (snd (call x st)) \<noteq> None)"
    using setStatus_keeps [where e = extension and f = featureId and st = st]
      setEnablement_keeps [where e = extension and f = featureId and st = st]
      getAccess_keeps [where e = extension and f = featureId and st = st]
      getAccessAnswered_keeps [where e = extension and f = featureId and st = st]
    by (cases x) (simp_all add: call_snd del: call.simps)
  with Cons.IH [of "snd (call x st)"] show ?case
    by (simp add: calls_Cons del: calls.simps call.simps)
qed

theorem decisions_and_records_stay_witness:
  "getExtensionFeatureState ''pub.ext'' ''codeActions'' demoDisabled \<noteq> None \<and>
   disabledOf ''pub.ext'' ''codeActions'' demoDisabled \<noteq> None \<and>
   getExtensionFeatureState ''pub.ext'' ''codeActions''
     (snd (calls [SetStatus ''pub.ext'' ''codeActions'' None,
                  GetAccess ''pub.ext'' ''codeActions'' 8,
                  SetEnablement ''pub.ext'' ''codeActions'' True,
                  GetAccess ''other.ext'' ''codeActions'' 9,
                  DialogAnswered demoDialog False 10] demoDisabled)) \<noteq> None \<and>
   disabledOf ''pub.ext'' ''codeActions''
     (snd (calls [SetStatus ''pub.ext'' ''codeActions'' None,
                  GetAccess ''pub.ext'' ''codeActions'' 8,
                  SetEnablement ''pub.ext'' ''codeActions'' True,
                  GetAccess ''other.ext'' ''codeActions'' 9,
                  DialogAnswered demoDialog False 10] demoDisabled)) \<noteq> None"
proof -
  have r: "getExtensionFeatureState ''pub.ext'' ''codeActions'' demoDisabled \<noteq> None"
    by code_simp
  have d: "disabledOf ''pub.ext'' ''codeActions'' demoDisabled \<noteq> None" by code_simp
  from decisions_and_records_stay [of "''pub.ext''" "''codeActions''" demoDisabled
      "[SetStatus ''pub.ext'' ''codeActions'' None,
        GetAccess ''pub.ext'' ''codeActions'' 8,
        SetEnablement ''pub.ext'' ''codeActions'' True,
        GetAccess ''other.ext'' ''codeActions'' 9,
        DialogAnswered demoDialog False 10]"] r d
  show ?thesis by blast
qed

text \<open>
  Property X3. In a reachable state a pair without a decision has counted no access: its
  lifetime total and its session count are \<open>0\<close>.
\<close>

theorem undecided_pairs_are_unused:
  assumes "reachable st" and "disabledOf extension featureId st = None"
  shows "totalCountOf extension featureId st = 0 \<and> countOf extension featureId st = 0"
  using undecided_unused [OF assms] by simp

theorem undecided_pairs_are_unused_witness:
  "reachable demoWarned \<and>
   disabledOf ''pub.ext'' ''codeActions'' demoWarned = None \<and>
   getExtensionFeatureState ''pub.ext'' ''codeActions'' demoWarned \<noteq> None \<and>
   totalCountOf ''pub.ext'' ''codeActions'' demoWarned = 0 \<and>
   countOf ''pub.ext'' ''codeActions'' demoWarned = 0"
proof -
  have r: "reachable demoWarned" by (rule demo_reachable)
  have d: "disabledOf ''pub.ext'' ''codeActions'' demoWarned = None" by code_simp
  have e: "getExtensionFeatureState ''pub.ext'' ''codeActions'' demoWarned \<noteq> None"
    by code_simp
  from undecided_pairs_are_unused [OF r d] r d e show ?thesis by simp
qed

text \<open>
  Property X4. \<^verbatim>\<open>saveState\<close> stores, for every pair, the decision and the lifetime total of
  its record and nothing of its session data, except that nothing is stored under the key
  \<^verbatim>\<open>__proto__\<close>.
\<close>

theorem saveState_stores_records:
  "storedFeatureOf extension featureId (storage (saveState st)) =
     (if extension = ''__proto__'' \<or> featureId = ''__proto__'' then None
      else map_option saveFeature (getExtensionFeatureState extension featureId st))"
  by (simp add: stored_saveData ownKey_def)

theorem saveState_stores_records_witness:
  "storedFeatureOf ''pub.ext'' ''codeActions'' (storage (saveState demoTwice)) =
     Some \<lparr>storedDisabled = Some False, accessCount = 2\<rparr> \<and>
   getExtensionFeatureState ''pub.ext'' ''codeActions'' demoTwice =
     Some \<lparr>disabled = Some False,
           accessData = \<lparr>totalCount = 2,
             current = Some \<lparr>count = 2, lastAccessed = 20, status = None\<rparr>\<rparr>\<rparr>"
proof -
  have g: "getExtensionFeatureState ''pub.ext'' ''codeActions'' demoTwice =
     Some \<lparr>disabled = Some False,
           accessData = \<lparr>totalCount = 2,
             current = Some \<lparr>count = 2, lastAccessed = 20, status = None\<rparr>\<rparr>\<rparr>"
    by code_simp
  from saveState_stores_records [of "''pub.ext''" "''codeActions''" demoTwice] g
  show ?thesis by (simp add: saveFeature_def)
qed

text \<open>
  Property X5. \<^verbatim>\<open>getEnablementData\<close> of a registered feature lists exactly the extensions
  whose record for the feature holds a decision, each with the negation of its
  \<^verbatim>\<open>disabled\<close>; for a feature that is not registered the list is empty.
\<close>

theorem getEnablementData_decided_only:
  "set (getEnablementData featureId st) =
     (if getExtensionFeature featureId st = None then {}
      else {(extension, enabled).
              \<exists>m s. (extension, m) \<in> set (extensionFeaturesState st) \<and>
                    map_of m featureId = Some s \<and> disabled s = Some (\<not> enabled)})"
proof (cases "getExtensionFeature featureId st")
  case None
  then show ?thesis by (simp add: getEnablementData_def)
next
  case (Some feature)
  have "set (getEnablementData featureId st) =
      {(extension, enabled).
         \<exists>m s. (extension, m) \<in> set (extensionFeaturesState st) \<and>
               map_of m featureId = Some s \<and> disabled s = Some (\<not> enabled)}"
    (is "?l = ?r")
  proof (intro set_eqI iffI)
    fix p
    assume "p \<in> ?l"
    with Some obtain e m where em: "(e, m) \<in> set (extensionFeaturesState st)"
      and p: "p \<in> set (case map_of m featureId of None \<Rightarrow> []
                | Some s \<Rightarrow> (case disabled s of None \<Rightarrow> [] | Some d \<Rightarrow> [(e, \<not> d)]))"
      by (auto simp add: getEnablementData_def)
    show "p \<in> ?r"
    proof (cases "map_of m featureId")
      case None
      with p show ?thesis by simp
    next
      case s: (Some s)
      show ?thesis
      proof (cases "disabled s")
        case None
        with p s show ?thesis by simp
      next
        case (Some d)
        with p s em show ?thesis by auto
      qed
    qed
  next
    fix p
    assume "p \<in> ?r"
    then obtain e b m s where p: "p = (e, b)"
      and em: "(e, m) \<in> set (extensionFeaturesState st)"
      and ms: "map_of m featureId = Some s" and d: "disabled s = Some (\<not> b)" by auto
    from ms d have "(e, b) \<in> set (case map_of m featureId of None \<Rightarrow> []
                | Some s \<Rightarrow> (case disabled s of None \<Rightarrow> [] | Some d \<Rightarrow> [(e, \<not> d)]))"
      by simp
    with em Some p show "p \<in> ?l"
      by (force simp add: getEnablementData_def)
  qed
  with Some show ?thesis by simp
qed

theorem getEnablementData_decided_only_witness:
  "getExtensionFeature ''codeActions'' demoLoaded \<noteq> None \<and>
   getEnablementData ''codeActions'' demoLoaded = [(''pub.ext'', False)] \<and>
   {(extension, enabled).
      \<exists>m s. (extension, m) \<in> set (extensionFeaturesState demoLoaded) \<and>
            map_of m ''codeActions'' = Some s \<and> disabled s = Some (\<not> enabled)} =
     {(''pub.ext'', False)}"
proof -
  have f: "getExtensionFeature ''codeActions'' demoLoaded \<noteq> None" by code_simp
  have l: "getEnablementData ''codeActions'' demoLoaded = [(''pub.ext'', False)]" by code_simp
  from getEnablementData_decided_only [of "''codeActions''" demoLoaded] f l
  show ?thesis by simp
qed

text \<open>
  Property X6. A call of \<^verbatim>\<open>getAccess\<close> is suspended at its dialog, the map is replaced
  because the storage was changed from outside, and then the dialog is answered "Allow"
  while the feature is registered. The call returns true and the pair is enabled in the
  map in use, but the access is counted on the record of the replaced map: in the map in
  use the total of every pair is what it was.
\<close>

theorem access_granted_across_reload:
  assumes "getExtensionFeature (suspendedFeatureId r) st = Some feature"
    and "suspendedMap r \<noteq> length (retired st)"
  shows "fst (getAccessAnswered r True now st) = Inr True \<and>
    disabledOf (suspendedExtension r) (suspendedFeatureId r)
      (snd (getAccessAnswered r True now st)) = Some False \<and>
    totalCountOf extension featureId (snd (getAccessAnswered r True now st)) =
      totalCountOf extension featureId st"
proof -
  let ?s1 = "snd (setEnablement (suspendedExtension r) (suspendedFeatureId r) True st)"
  have ans: "getAccessAnswered r True now st = recordAccess r now ?s1"
    by (simp add: getAccessAnswered_known [OF assms(1)])
  have stale: "suspendedMap r \<noteq> length (retired ?s1)"
    using assms(2) by (simp add: setEnablement_retired)
  from setEnablement_decided [OF assms(1), of "suspendedExtension r" True]
  have "disabledOf (suspendedExtension r) (suspendedFeatureId r) ?s1 = Some False"
    by simp
  then have d: "disabledOf (suspendedExtension r) (suspendedFeatureId r)
      (snd (getAccessAnswered r True now st)) = Some False"
    using stale by (simp add: ans disabledOf_def recordAccess_lookup)
  from getAccessAnswered_total [of extension featureId r True now st] assms(2)
  have t: "totalCountOf extension featureId (snd (getAccessAnswered r True now st)) =
      totalCountOf extension featureId st"
    by simp
  from d t show ?thesis by (simp add: ans)
qed

theorem access_granted_across_reload_witness:
  "reachable demoReloaded \<and>
   getExtensionFeature (suspendedFeatureId demoDialog) demoReloaded =
     Some \<lparr>label = ''Code Actions'', description = []\<rparr> \<and>
   suspendedMap demoDialog \<noteq> length (retired demoReloaded) \<and>
   fst (call (GetAccess ''pub.ext'' ''codeActions'' 1600) demoFresh) =
     Suspended demoDialog \<and>
   fst (getAccessAnswered demoDialog True 1700 demoReloaded) = Inr True \<and>
   isEnabled ''pub.ext'' ''codeActions''
     (snd (getAccessAnswered demoDialog True 1700 demoReloaded)) \<and>
   totalCountOf ''pub.ext'' ''codeActions''
     (snd (getAccessAnswered demoDialog True 1700 demoReloaded)) = 0 \<and>
   getAccessData ''pub.ext'' ''codeActions''
     (snd (getAccessAnswered demoDialog True 1700 demoReloaded)) =
     Some \<lparr>totalCount = 0, current = None\<rparr> \<and>
   trace (snd (getAccessAnswered demoDialog True 1700 demoReloaded)) =
     [DidChangeAccessData ''pub.ext'' ''codeActions'' (Some \<lparr>totalCount = 0, current = None\<rparr>),
      DidChangeEnablement ''pub.ext'' ''codeActions'' True,
      Store (Json [(''pub.ext'',
                    [(''codeActions'', \<lparr>storedDisabled = Some False, accessCount = 0\<rparr>)])]),
      Store (Json [(''pub.ext'',
                    [(''codeActions'', \<lparr>storedDisabled = Some False, accessCount = 0\<rparr>)])]),
      DidChangeAccessData ''pub.ext'' ''codeActions''
        (Some \<lparr>totalCount = 1,
               current = Some \<lparr>count = 1, lastAccessed = 1700, status = None\<rparr>\<rparr>)]"
proof -
  have "reachable (snd (call (GetAccess ''pub.ext'' ''codeActions'' 1600) demoFresh))"
    by (rule reachable.called) (rule demo_reachable)
  from reachable.external [OF this demo_reachable(1)]
  have r: "reachable demoReloaded" by (simp only: demoReloaded_def)
  have f: "getExtensionFeature (suspendedFeatureId demoDialog) demoReloaded =
      Some \<lparr>label = ''Code Actions'', description = []\<rparr>" by code_simp
  have s: "suspendedMap demoDialog \<noteq> length (retired demoReloaded)" by code_simp
  have p: "suspendedExtension demoDialog = ''pub.ext''"
    "suspendedFeatureId demoDialog = ''codeActions''" by code_simp+
  have a: "fst (call (GetAccess ''pub.ext'' ''codeActions'' 1600) demoFresh) =
      Suspended demoDialog" by code_simp
  have t0: "totalCountOf ''pub.ext'' ''codeActions'' demoReloaded = 0" by code_simp
  have e: "isEnabled ''pub.ext'' ''codeActions''
      (snd (getAccessAnswered demoDialog True 1700 demoReloaded))" by code_simp
  have g: "getAccessData ''pub.ext'' ''codeActions''
      (snd (getAccessAnswered demoDialog True 1700 demoReloaded)) =
      Some \<lparr>totalCount = 0, current = None\<rparr>" by code_simp
  have w: "trace (snd (getAccessAnswered demoDialog True 1700 demoReloaded)) =
     [DidChangeAccessData ''pub.ext'' ''codeActions'' (Some \<lparr>totalCount = 0, current = None\<rparr>),
      DidChangeEnablement ''pub.ext'' ''codeActions'' True,
      Store (Json [(''pub.ext'',
                    [(''codeActions'', \<lparr>storedDisabled = Some False, accessCount = 0\<rparr>)])]),
      Store (Json [(''pub.ext'',
                    [(''codeActions'', \<lparr>storedDisabled = Some False, accessCount = 0\<rparr>)])]),
      DidChangeAccessData ''pub.ext'' ''codeActions''
        (Some \<lparr>totalCount = 1,
               current = Some \<lparr>count = 1, lastAccessed = 1700, status = None\<rparr>\<rparr>)]"
    by code_simp
  note across = access_granted_across_reload [OF f s, where now = 1700
      and extension = "''pub.ext''" and featureId = "''codeActions''"]
  from across have c1: "fst (getAccessAnswered demoDialog True 1700 demoReloaded) = Inr True"
    by simp
  from across t0 have c2: "totalCountOf ''pub.ext'' ''codeActions''
      (snd (getAccessAnswered demoDialog True 1700 demoReloaded)) = 0"
    by simp
  from r f s a c1 e c2 g w show ?thesis by (intro conjI)
qed

end
